theory Spec2Isabelle
  imports Complex_Main "HOL-Library.Char_ord" "HOL-Library.List_Lexorder"
begin

section \<open>Python values used by the forecast parser\<close>

text \<open>
  The program is \<^verbatim>\<open>aurora.py\<close>; \<^verbatim>\<open>script.py\<close> has the same \<^verbatim>\<open>parse_forecast\<close> and
  \<^verbatim>\<open>send_email_alert\<close> and differs only in printing instead of logging. The embedding
  follows CPython (3.11 or later, C locale). A text is a \<^typ>\<open>string\<close> whose characters are
  the code points 0 to 255; code points above 255 are outside the model.

  Exceptions are values: a computation returns \<open>Inl e\<close> when the Python code raises \<open>e\<close>
  and \<open>Inr v\<close> when it returns \<open>v\<close>.
\<close>

datatype pyerr = ValueError | IndexError | OverflowError

subsection \<open>\<^verbatim>\<open>str\<close> methods\<close>

text \<open>\<^verbatim>\<open>str.isspace\<close> on one character (the whitespace of \<^verbatim>\<open>strip\<close>, \<^verbatim>\<open>split\<close> and of \<^verbatim>\<open>\s\<close>).\<close>

definition isspace :: "char \<Rightarrow> bool" where
  "isspace c = (c \<in> set [CHR 0x09, CHR 0x0A, CHR 0x0B, CHR 0x0C, CHR 0x0D, CHR 0x1C,
     CHR 0x1D, CHR 0x1E, CHR 0x1F, CHR 0x20, CHR 0x85, CHR 0xA0])"

text \<open>\<^verbatim>\<open>s.strip()\<close>\<close>

definition strip :: "string \<Rightarrow> string" where
  "strip s = rev (dropWhile isspace (rev (dropWhile isspace s)))"

text \<open>\<^verbatim>\<open>s.split()\<close>: the maximal runs of non-whitespace characters; \<open>cur\<close> is the run
  being read.\<close>

fun split_acc :: "string \<Rightarrow> string \<Rightarrow> string list" where
  "split_acc cur [] = (if cur = [] then [] else [cur])"
| "split_acc cur (c # cs) =
     (if isspace c then (if cur = [] then split_acc [] cs else cur # split_acc [] cs)
      else split_acc (cur @ [c]) cs)"

definition split_ws :: "string \<Rightarrow> string list" where
  "split_ws s = split_acc [] s"

text \<open>\<^verbatim>\<open>s.splitlines()\<close>: a line ends at LF, CR, CR LF, VT, FF, FS, GS, RS or NEL; no
  empty last line is produced.\<close>

definition is_linebreak :: "char \<Rightarrow> bool" where
  "is_linebreak c = (c \<in> set [CHR 0x0A, CHR 0x0B, CHR 0x0C, CHR 0x1C, CHR 0x1D, CHR 0x1E,
     CHR 0x85])"

fun splitlines_acc :: "string \<Rightarrow> string \<Rightarrow> string list" where
  "splitlines_acc cur [] = (if cur = [] then [] else [cur])"
| "splitlines_acc cur [c] =
     (if c = CHR 0x0D \<or> is_linebreak c then [cur] else [cur @ [c]])"
| "splitlines_acc cur (c # d # cs) =
     (if c = CHR 0x0D \<and> d = CHR 0x0A then cur # splitlines_acc [] cs
      else if c = CHR 0x0D \<or> is_linebreak c then cur # splitlines_acc [] (d # cs)
      else splitlines_acc (cur @ [c]) (d # cs))"

definition splitlines :: "string \<Rightarrow> string list" where
  "splitlines s = splitlines_acc [] s"

text \<open>\<^verbatim>\<open>s.startswith(p)\<close>\<close>

fun startswith :: "string \<Rightarrow> string \<Rightarrow> bool" where
  "startswith s [] = True"
| "startswith [] (p # ps) = False"
| "startswith (c # cs) (p # ps) = (c = p \<and> startswith cs ps)"

text \<open>\<^verbatim>\<open>sub in s\<close>\<close>

fun contains :: "string \<Rightarrow> string \<Rightarrow> bool" where
  "contains [] sub = (sub = [])"
| "contains (c # cs) sub = (startswith (c # cs) sub \<or> contains cs sub)"

text \<open>\<^verbatim>\<open>s.split(sep)\<close> for a separator of one character.\<close>

fun split_char_acc :: "char \<Rightarrow> string \<Rightarrow> string \<Rightarrow> string list" where
  "split_char_acc sep cur [] = [cur]"
| "split_char_acc sep cur (c # cs) =
     (if c = sep then cur # split_char_acc sep [] cs else split_char_acc sep (cur @ [c]) cs)"

definition split_char :: "char \<Rightarrow> string \<Rightarrow> string list" where
  "split_char sep s = split_char_acc sep [] s"

text \<open>\<^verbatim>\<open>s.split(sub)[0]\<close> for a non-empty \<open>sub\<close>: the text before the first occurrence
  of \<open>sub\<close>, all of \<open>s\<close> when there is none.\<close>

fun before_first :: "string \<Rightarrow> string \<Rightarrow> string" where
  "before_first sub [] = []"
| "before_first sub (c # cs) = (if startswith (c # cs) sub then [] else c # before_first sub cs)"

text \<open>\<^verbatim>\<open>s.lower()\<close>; below code point 256 only the ASCII letters matter for the
  case-insensitive match of a month abbreviation.\<close>

definition lower_char :: "char \<Rightarrow> char" where
  "lower_char c =
     (case map_of (zip ''ABCDEFGHIJKLMNOPQRSTUVWXYZ'' ''abcdefghijklmnopqrstuvwxyz'') c of
        Some l \<Rightarrow> l
      | None \<Rightarrow> c)"

definition lower :: "string \<Rightarrow> string" where
  "lower s = map lower_char s"

text \<open>The decimal digits (\<^verbatim>\<open>\d\<close>, and what \<^verbatim>\<open>int\<close> and \<^verbatim>\<open>float\<close> read).\<close>

definition digit_val :: "char \<Rightarrow> int option" where
  "digit_val c = map_of (zip ''0123456789'' [0, 1, 2, 3, 4, 5, 6, 7, 8, 9]) c"

definition is_decimal :: "char \<Rightarrow> bool" where
  "is_decimal c = (digit_val c \<noteq> None)"

text \<open>\<^verbatim>\<open>s.isdigit()\<close>: also true of the superscript digits U+00B2, U+00B3 and U+00B9,
  which \<^verbatim>\<open>int\<close> rejects.\<close>

definition isdigit :: "string \<Rightarrow> bool" where
  "isdigit s =
     (s \<noteq> [] \<and> list_all (\<lambda>c. is_decimal c \<or> c \<in> set [CHR 0xB2, CHR 0xB3, CHR 0xB9]) s)"

text \<open>The value of a run of decimal digits, most significant first.\<close>

fun digits_val :: "int \<Rightarrow> string \<Rightarrow> int" where
  "digits_val acc [] = acc"
| "digits_val acc (c # cs) = digits_val (10 * acc + (case digit_val c of Some d \<Rightarrow> d | None \<Rightarrow> 0)) cs"

text \<open>PEP 515: an underscore in a numeric string must stand between two digits; the
  string is then read without its underscores. \<open>None\<close> is a misplaced underscore.\<close>

fun strip_underscores :: "char \<Rightarrow> string \<Rightarrow> string option" where
  "strip_underscores prev [] = (if prev = CHR ''_'' then None else Some [])"
| "strip_underscores prev (c # cs) =
     (if c = CHR ''_'' then
        (if is_decimal prev then strip_underscores c cs else None)
      else if prev = CHR ''_'' \<and> \<not> is_decimal c then None
      else map_option ((#) c) (strip_underscores c cs))"

text \<open>An optional sign: whether the number is negative, and the rest.\<close>

fun take_sign :: "string \<Rightarrow> bool \<times> string" where
  "take_sign [] = (False, [])"
| "take_sign (c # cs) =
     (if c = CHR ''-'' then (True, cs) else if c = CHR ''+'' then (False, cs) else (False, c # cs))"

text \<open>\<^verbatim>\<open>int(s)\<close> for a string: surrounding whitespace, a sign, decimal digits with
  underscores between them; more than 4300 digits raise \<^verbatim>\<open>ValueError\<close> as well.\<close>

definition py_int :: "string \<Rightarrow> pyerr + int" where
  "py_int s =
     (case strip_underscores (CHR 0x00) (strip s) of
        None \<Rightarrow> Inl ValueError
      | Some t \<Rightarrow>
          (let (neg, ds) = take_sign t in
           if ds \<noteq> [] \<and> list_all is_decimal ds \<and> length ds \<le> 4300
           then Inr (if neg then - digits_val 0 ds else digits_val 0 ds)
           else Inl ValueError))"

subsection \<open>\<^verbatim>\<open>float\<close>\<close>

text \<open>
  A \<^verbatim>\<open>float\<close> is an IEEE 754 binary64 value: \<open>Finite neg m p\<close> is \<open>m * 2 ^ p\<close> with the sign
  \<open>neg\<close>, where \<open>m \<le> 2 ^ 53\<close>; the integer arithmetic below is the one of the conversion,
  and \<open>float_value\<close> reads the number a finite float stands for.
\<close>

datatype pyfloat = Finite bool int int | Infinity bool | NaN

fun float_value :: "pyfloat \<Rightarrow> rat option" where
  "float_value (Finite neg m p) =
     Some ((if neg then - 1 else 1) *
           (if 0 \<le> p then of_int m * 2 ^ nat p else of_int m / 2 ^ nat (- p)))"
| "float_value (Infinity neg) = None"
| "float_value NaN = None"

function bitlen :: "int \<Rightarrow> int" where
  "bitlen n = (if n \<le> 0 then 0 else 1 + bitlen (n div 2))"
  by pat_completeness auto
termination
  by (relation "measure nat") auto

declare bitlen.simps [simp del]

text \<open>\<open>\<lfloor>log\<^sub>2 (num / den)\<rfloor>\<close> for positive \<open>num\<close> and \<open>den\<close>.\<close>

definition floor_log2 :: "int \<Rightarrow> int \<Rightarrow> int" where
  "floor_log2 num den =
     (let k = bitlen num - bitlen den in
      if (if 0 \<le> k then den * 2 ^ nat k \<le> num else den \<le> num * 2 ^ nat (- k)) then k
      else k - 1)"

text \<open>
  The correctly rounded binary64 value of \<open>num / den\<close> (round to nearest, ties to even),
  as \<^verbatim>\<open>float\<close> computes it from a decimal string: 53 significant bits, the least exponent
  \<open>- 1074\<close>, and infinity from \<open>2 ^ 1024\<close> on.
\<close>

definition to_double :: "bool \<Rightarrow> int \<Rightarrow> int \<Rightarrow> pyfloat" where
  "to_double neg num den =
     (if num = 0 then Finite neg 0 0
      else
        (let e = floor_log2 num den;
             p = max (e - 52) (- 1074);
             N = (if p < 0 then num * 2 ^ nat (- p) else num);
             D = (if p < 0 then den else den * 2 ^ nat p);
             q = N div D;
             r = N mod D;
             m = (if D < 2 * r \<or> (2 * r = D \<and> odd q) then q + 1 else q)
         in if 0 \<le> p \<and> 2 ^ 1024 \<le> m * 2 ^ nat p then Infinity neg else Finite neg m p))"

text \<open>The float nearest to \<open>ds * 10 ^ ex\<close>.\<close>

definition decimal_to_double :: "bool \<Rightarrow> int \<Rightarrow> int \<Rightarrow> pyfloat" where
  "decimal_to_double neg ds ex =
     (if 0 \<le> ex then to_double neg (ds * 10 ^ nat ex) 1 else to_double neg ds (10 ^ nat (- ex)))"

text \<open>The exponent of a float literal: nothing, or \<^verbatim>\<open>e\<close> or \<^verbatim>\<open>E\<close>, an optional sign and at
  least one digit.\<close>

definition exponent_part :: "string \<Rightarrow> int option" where
  "exponent_part r =
     (case r of
        [] \<Rightarrow> Some 0
      | c # cs \<Rightarrow>
          if c = CHR ''e'' \<or> c = CHR ''E'' then
            (let (neg, ds) = take_sign cs in
             if ds \<noteq> [] \<and> list_all is_decimal ds
             then Some (if neg then - digits_val 0 ds else digits_val 0 ds)
             else None)
          else None)"

text \<open>The fraction of a float literal: a point and the digits after it, then the rest.\<close>

definition fraction_part :: "string \<Rightarrow> string \<times> string" where
  "fraction_part r =
     (case r of
        [] \<Rightarrow> ([], [])
      | c # cs \<Rightarrow>
          if c = CHR ''.'' then (takeWhile is_decimal cs, dropWhile is_decimal cs)
          else ([], c # cs))"

text \<open>\<^verbatim>\<open>float(s)\<close> for a string: surrounding whitespace, underscores between digits, a
  sign, then \<^verbatim>\<open>inf\<close>, \<^verbatim>\<open>infinity\<close> or \<^verbatim>\<open>nan\<close> in any case, or a decimal literal with at
  least one digit and an optional exponent. A literal too large for a float gives
  infinity; anything else raises \<^verbatim>\<open>ValueError\<close>.\<close>

definition py_float :: "string \<Rightarrow> pyerr + pyfloat" where
  "py_float s =
     (case strip_underscores (CHR 0x00) (strip s) of
        None \<Rightarrow> Inl ValueError
      | Some t \<Rightarrow>
          (let (neg, u) = take_sign t in
           if lower u = ''inf'' \<or> lower u = ''infinity'' then Inr (Infinity neg)
           else if lower u = ''nan'' then Inr NaN
           else
             (let ip = takeWhile is_decimal u;
                  (fp, r2) = fraction_part (dropWhile is_decimal u)
              in if ip = [] \<and> fp = [] then Inl ValueError
                 else
                   (case exponent_part r2 of
                      None \<Rightarrow> Inl ValueError
                    | Some ex \<Rightarrow>
                        Inr (decimal_to_double neg (digits_val 0 (ip @ fp))
                               (ex - int (length fp)))))))"

text \<open>\<^verbatim>\<open>int(x)\<close> for a float: truncation toward zero; infinity raises
  \<^verbatim>\<open>OverflowError\<close>, not-a-number raises \<^verbatim>\<open>ValueError\<close>.\<close>

fun py_int_of_float :: "pyfloat \<Rightarrow> pyerr + int" where
  "py_int_of_float (Finite neg m p) =
     (let a = (if 0 \<le> p then m * 2 ^ nat p else m div 2 ^ nat (- p))
      in Inr (if neg then - a else a))"
| "py_int_of_float (Infinity neg) = Inl OverflowError"
| "py_int_of_float NaN = Inl ValueError"

text \<open>\<^verbatim>\<open>int(float(kp_str))\<close>\<close>

definition kp_of_str :: "string \<Rightarrow> pyerr + int" where
  "kp_of_str kp_str = (case py_float kp_str of Inl e \<Rightarrow> Inl e | Inr x \<Rightarrow> py_int_of_float x)"

subsection \<open>\<^verbatim>\<open>datetime\<close>\<close>

text \<open>
  A \<^verbatim>\<open>date\<close> is a year, a month and a day. The constructor first converts its arguments to
  C integers, which raises \<^verbatim>\<open>OverflowError\<close> outside 32 bits, and then checks the ranges,
  which raises \<^verbatim>\<open>ValueError\<close>.
\<close>

record pydate =
  year :: int
  month :: int
  day :: int

definition is_leap :: "int \<Rightarrow> bool" where
  "is_leap y = (y mod 4 = 0 \<and> (if y mod 100 = 0 then y mod 400 = 0 else True))"

definition days_in_month :: "int \<Rightarrow> int \<Rightarrow> int" where
  "days_in_month y m =
     (if m = 2 then (if is_leap y then 29 else 28)
      else if m = 4 \<or> m = 6 \<or> m = 9 \<or> m = 11 then 30
      else 31)"

definition fits_c_int :: "int \<Rightarrow> bool" where
  "fits_c_int n = (- (2 ^ 31) \<le> n \<and> n < 2 ^ 31)"

definition valid_date :: "pydate \<Rightarrow> bool" where
  "valid_date d =
     (1 \<le> year d \<and> year d \<le> 9999 \<and> 1 \<le> month d \<and> month d \<le> 12 \<and>
      1 \<le> day d \<and> day d \<le> days_in_month (year d) (month d))"

definition date_new :: "int \<Rightarrow> int \<Rightarrow> int \<Rightarrow> pyerr + pydate" where
  "date_new y m d =
     (if fits_c_int y \<and> fits_c_int m \<and> fits_c_int d then
        (if valid_date \<lparr>year = y, month = m, day = d\<rparr> then Inr \<lparr>year = y, month = m, day = d\<rparr>
         else Inl ValueError)
      else Inl OverflowError)"

text \<open>The proleptic Gregorian ordinal of a date (\<^verbatim>\<open>date.toordinal\<close>): day 1 is
  0001-01-01.\<close>

definition days_before_year :: "int \<Rightarrow> int" where
  "days_before_year y = (y - 1) * 365 + (y - 1) div 4 - (y - 1) div 100 + (y - 1) div 400"

definition days_before_month :: "int \<Rightarrow> int \<Rightarrow> int" where
  "days_before_month y m = sum_list (map (days_in_month y) [1..m - 1])"

definition toordinal :: "pydate \<Rightarrow> int" where
  "toordinal d = days_before_year (year d) + days_before_month (year d) (month d) + day d"

text \<open>
  An aware \<^verbatim>\<open>datetime\<close> in UTC. The parser builds whole hours only, so minute, second
  and microsecond are 0 and left out. \<^verbatim>\<open>time(hour=h)\<close> raises \<^verbatim>\<open>ValueError\<close> unless
  \<open>0 \<le> h \<le> 23\<close>.
\<close>

record pydatetime =
  date_of :: pydate
  hour :: int

definition dt_time :: "int \<Rightarrow> pyerr + int" where
  "dt_time h = (if 0 \<le> h \<and> h \<le> 23 then Inr h else Inl ValueError)"

definition combine :: "pydate \<Rightarrow> int \<Rightarrow> pydatetime" where
  "combine d t = \<lparr>date_of = d, hour = t\<rparr>"

text \<open>The instant of a UTC datetime, in hours since 0001-01-01 00:00.\<close>

definition hours_since_epoch :: "pydatetime \<Rightarrow> int" where
  "hours_since_epoch dt = (toordinal (date_of dt) - 1) * 24 + hour dt"

text \<open>
  \<^verbatim>\<open>dt + timedelta(hours=3)\<close>: the calendar reading three hours later; a result after year
  9999 raises \<^verbatim>\<open>OverflowError\<close>.
\<close>

definition next_day :: "pydate \<Rightarrow> pydate" where
  "next_day d =
     (if day d < days_in_month (year d) (month d) then d\<lparr>day := day d + 1\<rparr>
      else if month d < 12 then \<lparr>year = year d, month = month d + 1, day = 1\<rparr>
      else \<lparr>year = year d + 1, month = 1, day = 1\<rparr>)"

definition plus_3h :: "pydatetime \<Rightarrow> pydatetime" where
  "plus_3h dt =
     (if hour dt + 3 < 24 then dt\<lparr>hour := hour dt + 3\<rparr>
      else \<lparr>date_of = next_day (date_of dt), hour = hour dt + 3 - 24\<rparr>)"

definition datetime_add_3h :: "pydatetime \<Rightarrow> pyerr + pydatetime" where
  "datetime_add_3h dt =
     (let r = plus_3h dt in if 9999 < year (date_of r) then Inl OverflowError else Inr r)"

subsection \<open>\<^verbatim>\<open>datetime.strptime\<close>\<close>

definition month_abbrs :: "string list" where
  "month_abbrs = [''jan'', ''feb'', ''mar'', ''apr'', ''may'', ''jun'', ''jul'', ''aug'', ''sep'',
     ''oct'', ''nov'', ''dec'']"

text \<open>The directive \<^verbatim>\<open>%b\<close> matches a month abbreviation in any case.\<close>

definition month_of_abbr :: "string \<Rightarrow> int option" where
  "month_of_abbr s = map_of (zip month_abbrs [1, 2, 3, 4, 5, 6, 7, 8, 9, 10, 11, 12]) (lower s)"

text \<open>\<^verbatim>\<open>month_str_to_int\<close> of the source: \<^verbatim>\<open>datetime.strptime(month_str.strip(), "%b").month\<close>,
  which raises \<^verbatim>\<open>ValueError\<close> unless the whole string is a month abbreviation.\<close>

definition month_str_to_int :: "string \<Rightarrow> pyerr + int" where
  "month_str_to_int month_str =
     (case month_of_abbr (strip month_str) of None \<Rightarrow> Inl ValueError | Some m \<Rightarrow> Inr m)"

text \<open>
  The two layouts of the issuance time, \<^verbatim>\<open>"%Y %b %d %H%M"\<close> and \<^verbatim>\<open>"%b %d %H%M %Y"\<close>. A
  blank of the format matches a run of whitespace and the whole string must be consumed,
  so the string is four fields separated by whitespace, with none around them:
  \<^verbatim>\<open>%Y\<close> is four digits; \<^verbatim>\<open>%d\<close> is \<^verbatim>\<open>1\<close> to \<^verbatim>\<open>31\<close>, one digit or two; \<^verbatim>\<open>%H%M\<close> is two
  to four digits that split into an hour up to 23 and a minute up to 59. The date must
  exist. Only the year of the result is used; \<open>None\<close> is \<^verbatim>\<open>ValueError\<close>.
\<close>

definition day_field_ok :: "string \<Rightarrow> bool" where
  "day_field_ok t =
     (list_all is_decimal t \<and> (length t = 1 \<or> length t = 2) \<and>
      1 \<le> digits_val 0 t \<and> digits_val 0 t \<le> 31)"

definition hm_field_ok :: "string \<Rightarrow> bool" where
  "hm_field_ok t =
     (list_all is_decimal t \<and>
      (length t = 2 \<or>
       (length t = 3 \<and> (digits_val 0 (take 2 t) \<le> 23 \<or> digits_val 0 (take 1 (drop 1 t)) \<le> 5)) \<or>
       (length t = 4 \<and> digits_val 0 (take 2 t) \<le> 23 \<and> digits_val 0 (take 1 (drop 2 t)) \<le> 5)))"

definition strptime_fields :: "string \<Rightarrow> string \<Rightarrow> string \<Rightarrow> string \<Rightarrow> int option" where
  "strptime_fields y_str b_str d_str hm_str =
     (if length y_str = 4 \<and> list_all is_decimal y_str \<and> day_field_ok d_str \<and> hm_field_ok hm_str
      then
        (case month_of_abbr b_str of
           None \<Rightarrow> None
         | Some m \<Rightarrow>
             (case date_new (digits_val 0 y_str) m (digits_val 0 d_str) of
                Inl e \<Rightarrow> None
              | Inr d \<Rightarrow> Some (year d)))
      else None)"

definition strptime_Y_b_d_HM :: "string \<Rightarrow> int option" where
  "strptime_Y_b_d_HM s =
     (if strip s = s then
        (case split_ws s of
           [y_str, b_str, d_str, hm_str] \<Rightarrow> strptime_fields y_str b_str d_str hm_str
         | _ \<Rightarrow> None)
      else None)"

definition strptime_b_d_HM_Y :: "string \<Rightarrow> int option" where
  "strptime_b_d_HM_Y s =
     (if strip s = s then
        (case split_ws s of
           [b_str, d_str, hm_str, y_str] \<Rightarrow> strptime_fields y_str b_str d_str hm_str
         | _ \<Rightarrow> None)
      else None)"

section \<open>The forecast parser\<close>

text \<open>
  The settings read at start-up that the two functions use. The latitude and longitude
  appear only in the text of the message, so they are kept as the text they are printed as.
\<close>

record config =
  KP_THRESHOLD :: int
  EMAIL_SENDER :: string
  RECIPIENT_STRING :: string
  MAGNETIC_LATITUDE :: string
  MAGNETIC_LONGITUDE :: string

text \<open>
  The reading of \<^verbatim>\<open>datetime.now(UTC_TZ)\<close>. The source reads the clock once for the year and
  once more for the month of each date; the model takes one reading for the whole run.
\<close>

record clock =
  now_year :: int
  now_month :: int

text \<open>
  An element of \<^verbatim>\<open>high_kp_periods\<close>: the start, the end and the Kp index. The source
  stores \<^verbatim>\<open>utc_start_dt.astimezone(target_tz)\<close> and the same for the end; the conversion
  keeps the instant and changes only how it is displayed, so the model keeps the UTC
  reading and has no \<^verbatim>\<open>target_tz\<close>. That the conversion fails when the local reading would
  leave the years 1 to 9999, which can happen within a day of the two ends of that range, is
  not modelled.
\<close>

type_synonym period = "pydatetime \<times> pydatetime \<times> int"

definition period_start :: "period \<Rightarrow> pydatetime" where
  "period_start p = fst p"

definition period_end :: "period \<Rightarrow> pydatetime" where
  "period_end p = fst (snd p)"

definition period_kp :: "period \<Rightarrow> int" where
  "period_kp p = snd (snd p)"

subsection \<open>The year of issue\<close>

text \<open>The body of the \<^verbatim>\<open>try\<close> for one line that starts with \<^verbatim>\<open>:Issued:\<close>; \<open>None\<close> is a
  \<^verbatim>\<open>ValueError\<close> or no third part.\<close>

definition issued_line_year :: "string \<Rightarrow> int option" where
  "issued_line_year line =
     (let issued_parts = split_char (CHR '':'') line in
      if 2 < length issued_parts then
        (let issued_str = before_first '' UTC'' (strip (issued_parts ! 2)) in
         case strptime_Y_b_d_HM issued_str of
           Some y \<Rightarrow> Some y
         | None \<Rightarrow> strptime_b_d_HM_Y issued_str)
      else None)"

text \<open>The loop over the lines: the first \<^verbatim>\<open>:Issued:\<close> line that gives a year ends it.\<close>

fun issued_scan :: "string list \<Rightarrow> int option" where
  "issued_scan [] = None"
| "issued_scan (line # rest) =
     (if startswith line '':Issued:'' then
        (case issued_line_year line of Some y \<Rightarrow> Some y | None \<Rightarrow> issued_scan rest)
      else issued_scan rest)"

definition resolve_current_year :: "clock \<Rightarrow> string list \<Rightarrow> int" where
  "resolve_current_year now lines =
     (case issued_scan lines of Some y \<Rightarrow> y | None \<Rightarrow> now_year now)"

subsection \<open>The date header\<close>

text \<open>
  The inner loop \<^verbatim>\<open>for next_line_offset in range(1, 4)\<close> after a marker line \<open>i\<close>: a
  blank line is passed over; the first line that is not blank either is the header (at
  least three parts, the first a month) or ends the loop without one.
\<close>

fun check_offsets :: "string list \<Rightarrow> nat \<Rightarrow> nat list \<Rightarrow> (nat \<times> string list) option" where
  "check_offsets lines i [] = None"
| "check_offsets lines i (next_line_offset # offs) =
     (let current_check_idx = i + next_line_offset in
      if current_check_idx < length lines then
        (let potential_date_line = strip (lines ! current_check_idx) in
         if potential_date_line = [] then check_offsets lines i offs
         else
           (let parts = split_ws potential_date_line in
            if 3 \<le> length parts then
              (case month_str_to_int (parts ! 0) of
                 Inr m \<Rightarrow> Some (current_check_idx, parts)
               | Inl e \<Rightarrow> None)
            else None))
      else None)"

declare check_offsets.simps [simp del]

text \<open>\<^verbatim>\<open>range(1, 4)\<close>\<close>

definition next_line_offsets :: "nat list" where
  "next_line_offsets = [1, 2, 3]"

text \<open>The outer loop \<^verbatim>\<open>for i, line in enumerate(lines)\<close>, over the indices \<open>is\<close>.\<close>

fun header_scan :: "string list \<Rightarrow> nat list \<Rightarrow> (nat \<times> string list) option" where
  "header_scan lines [] = None"
| "header_scan lines (i # is) =
     (if contains (lines ! i) ''NOAA Kp index breakdown'' then
        (case check_offsets lines i next_line_offsets of
           Some h \<Rightarrow> Some h
         | None \<Rightarrow> header_scan lines is)
      else header_scan lines is)"

definition find_date_header :: "string list \<Rightarrow> (nat \<times> string list) option" where
  "find_date_header lines = header_scan lines [0..<length lines]"

subsection \<open>The forecast dates\<close>

text \<open>
  The \<^verbatim>\<open>while\<close> loop over \<^verbatim>\<open>forecast_dates_raw\<close>; the list argument is
  \<^verbatim>\<open>forecast_dates_raw[idx:]\<close>. A month that is no abbreviation, a missing day or one that
  is not \<^verbatim>\<open>isdigit\<close>, and a date that does not exist raise \<^verbatim>\<open>ValueError\<close>.
\<close>

definition year_for_forecast :: "int \<Rightarrow> int \<Rightarrow> int \<Rightarrow> int" where
  "year_for_forecast current_year now_m current_month_int =
     (if now_m = 12 \<and> current_month_int = 1 then current_year + 1 else current_year)"

fun decode_dates :: "int \<Rightarrow> int \<Rightarrow> string list \<Rightarrow> pydate list \<Rightarrow> pyerr + pydate list" where
  "decode_dates current_year now_m raw parsed_dates =
     (if length parsed_dates < 3 then
        (case raw of
           [] \<Rightarrow> Inr parsed_dates
         | month_str # raw1 \<Rightarrow>
             (case month_str_to_int month_str of
                Inl e \<Rightarrow> Inl e
              | Inr current_month_int \<Rightarrow>
                  (case raw1 of
                     [] \<Rightarrow> Inl ValueError
                   | day_str # raw2 \<Rightarrow>
                       if isdigit day_str then
                         (case py_int day_str of
                            Inl e \<Rightarrow> Inl e
                          | Inr day_int \<Rightarrow>
                              (case date_new
                                      (year_for_forecast current_year now_m current_month_int)
                                      current_month_int day_int of
                                 Inl e \<Rightarrow> Inl e
                               | Inr d \<Rightarrow>
                                   decode_dates current_year now_m raw2 (parsed_dates @ [d])))
                       else Inl ValueError)))
      else Inr parsed_dates)"

declare decode_dates.simps [simp del]

subsection \<open>The rows of the table\<close>

text \<open>\<^verbatim>\<open>re.match(r"\d{2}-\d{2}UT", line)\<close>\<close>

definition row_label_match :: "string \<Rightarrow> bool" where
  "row_label_match line =
     (case line of
        a # b # c # d # e # f # g # rest \<Rightarrow>
          is_decimal a \<and> is_decimal b \<and> c = CHR ''-'' \<and> is_decimal d \<and> is_decimal e \<and>
          f = CHR ''U'' \<and> g = CHR ''T''
      | _ \<Rightarrow> False)"

text \<open>The body of the \<^verbatim>\<open>try\<close> for one value \<^verbatim>\<open>kp_str\<close> of column \<open>i\<close>, where
  \<open>forecast_date_obj\<close> is \<^verbatim>\<open>parsed_dates[i]\<close>: the periods it appends.\<close>

definition token_periods :: "int \<Rightarrow> pydate \<Rightarrow> int \<Rightarrow> string \<Rightarrow> pyerr + period list" where
  "token_periods thr forecast_date_obj start_hour kp_str =
     (case kp_of_str kp_str of
        Inl e \<Rightarrow> Inl e
      | Inr kp_index \<Rightarrow>
          if thr \<le> kp_index then
            (case dt_time start_hour of
               Inl e \<Rightarrow> Inl e
             | Inr t \<Rightarrow>
                 (let utc_start_dt = combine forecast_date_obj t in
                  case datetime_add_3h utc_start_dt of
                    Inl e \<Rightarrow> Inl e
                  | Inr utc_end_dt \<Rightarrow> Inr [(utc_start_dt, utc_end_dt, kp_index)]))
          else Inr [])"

text \<open>\<^verbatim>\<open>for i, kp_str in enumerate(kp_value_strs)\<close>: the loop ends at the first column
  without a date; \<^verbatim>\<open>ValueError\<close> is caught for each value, any other exception leaves the
  function.\<close>

fun kp_loop :: "int \<Rightarrow> pydate list \<Rightarrow> int \<Rightarrow> nat \<Rightarrow> string list \<Rightarrow> pyerr + period list" where
  "kp_loop thr parsed_dates start_hour i [] = Inr []"
| "kp_loop thr parsed_dates start_hour i (kp_str # rest) =
     (if length parsed_dates \<le> i then Inr []
      else
        (case token_periods thr (parsed_dates ! i) start_hour kp_str of
           Inl e \<Rightarrow>
             if e = ValueError then kp_loop thr parsed_dates start_hour (Suc i) rest else Inl e
         | Inr ps \<Rightarrow>
             (case kp_loop thr parsed_dates start_hour (Suc i) rest of
                Inl e \<Rightarrow> Inl e
              | Inr qs \<Rightarrow> Inr (ps @ qs))))"

text \<open>The body of the loop over the lines after the header, for one line.\<close>

definition row_periods :: "int \<Rightarrow> pydate list \<Rightarrow> string \<Rightarrow> pyerr + period list" where
  "row_periods thr parsed_dates raw_line =
     (let line = strip raw_line in
      if line = [] \<or> \<not> row_label_match line then Inr []
      else
        (case split_ws line of
           [] \<Rightarrow> Inl IndexError
         | time_period_str # kp_value_strs \<Rightarrow>
             if length kp_value_strs < length parsed_dates then Inr []
             else
               (case py_int (take 2 time_period_str) of
                  Inl e \<Rightarrow> if e = ValueError then Inr [] else Inl e
                | Inr start_hour \<Rightarrow> kp_loop thr parsed_dates start_hour 0 kp_value_strs)))"

fun rows_loop :: "int \<Rightarrow> pydate list \<Rightarrow> string list \<Rightarrow> pyerr + period list" where
  "rows_loop thr parsed_dates [] = Inr []"
| "rows_loop thr parsed_dates (l # ls) =
     (case row_periods thr parsed_dates l of
        Inl e \<Rightarrow> Inl e
      | Inr ps \<Rightarrow>
          (case rows_loop thr parsed_dates ls of
             Inl e \<Rightarrow> Inl e
           | Inr qs \<Rightarrow> Inr (ps @ qs)))"

subsection \<open>\<^verbatim>\<open>parse_forecast\<close>\<close>

text \<open>The function after \<^verbatim>\<open>lines = forecast_text.splitlines()\<close>. The errors
  \<^verbatim>\<open>ValueError\<close> and \<^verbatim>\<open>IndexError\<close> of the date header are caught and give no periods.\<close>

definition parse_lines :: "config \<Rightarrow> clock \<Rightarrow> string list \<Rightarrow> pyerr + period list" where
  "parse_lines cfg now lines =
     (let current_year = resolve_current_year now lines in
      case find_date_header lines of
        None \<Rightarrow> Inr []
      | Some (date_header_line_idx, forecast_dates_raw) \<Rightarrow>
          (case decode_dates current_year (now_month now) forecast_dates_raw [] of
             Inl e \<Rightarrow> if e = ValueError \<or> e = IndexError then Inr [] else Inl e
           | Inr parsed_dates \<Rightarrow>
               if length parsed_dates \<noteq> 3 then Inr []
               else rows_loop (KP_THRESHOLD cfg) parsed_dates
                      (drop (date_header_line_idx + 1) lines)))"

definition parse_forecast :: "config \<Rightarrow> clock \<Rightarrow> string \<Rightarrow> pyerr + period list" where
  "parse_forecast cfg now forecast_text =
     (if forecast_text = [] then Inr [] else parse_lines cfg now (splitlines forecast_text))"

section \<open>The alert\<close>

text \<open>\<^verbatim>\<open>str(n)\<close> for an integer.\<close>

fun str_nat :: "nat \<Rightarrow> string" where
  "str_nat n =
     (if n < 10 then [''0123456789'' ! n] else str_nat (n div 10) @ [''0123456789'' ! (n mod 10)])"

declare str_nat.simps [simp del]

definition str_int :: "int \<Rightarrow> string" where
  "str_int n = (if n < 0 then CHR ''-'' # str_nat (nat (- n)) else str_nat (nat n))"

text \<open>
  What \<^verbatim>\<open>send_email_alert\<close> hands to the SMTP session: the envelope sender, the envelope
  recipients and the subject and body of the message. \<open>None\<close> is a return before any
  message is built or any session opened. Errors of the session itself are caught and
  logged by the source and are not part of the model.
\<close>

record mail =
  from_addr :: string
  to_addrs :: "string list"
  subject :: string
  body :: string

text \<open>
  \<open>period_str\<close> stands for the two \<^verbatim>\<open>strftime\<close> calls that print the start and the end of a
  period in the display time zone.
\<close>

definition send_email_alert ::
  "config \<Rightarrow> (period \<Rightarrow> string) \<Rightarrow> period list \<Rightarrow> string \<Rightarrow> mail option" where
  "send_email_alert cfg period_str high_kp_periods local_tz_name_for_display =
     (if high_kp_periods = [] then None
      else
        (let bcc_recipients_list =
               filter (\<lambda>email. email \<noteq> []) (map strip (split_char (CHR '','') (RECIPIENT_STRING cfg)));
             all_to_addrs = sort (remdups (EMAIL_SENDER cfg # bcc_recipients_list))
         in if all_to_addrs = [] then None
            else
              (let max_kp_found = Max (set (map period_kp high_kp_periods));
                   sorted_periods =
                     sort_key (\<lambda>p. hours_since_epoch (period_start p)) high_kp_periods
               in Some \<lparr>
                    from_addr = EMAIL_SENDER cfg,
                    to_addrs = all_to_addrs,
                    subject = ''Aurora Alert! Kp Index Forecast to Reach '' @ str_int max_kp_found,
                    body =
                      ''High aurora activity is forecasted. Times are displayed in '' @
                      local_tz_name_for_display @ ''.\<newline>Alert triggered for Kp-index of '' @
                      str_int (KP_THRESHOLD cfg) @ '' or greater:\<newline>\<newline>'' @
                      concat (map (\<lambda>p. ''- '' @ period_str p @ '', Forecasted Kp-Index: '' @
                                     str_int (period_kp p) @ ''\<newline>'') sorted_periods) @
                      ''\<newline>This alert was triggered based on settings for magnetic latitude ~'' @
                      MAGNETIC_LATITUDE cfg @ [CHR 0xB0] @ '' and longitude ~'' @
                      MAGNETIC_LONGITUDE cfg @ [CHR 0xB0] @ ''.'' @
                      ''\<newline>\<newline>Check the latest animated forecast at: https://www.swpc.noaa.gov/products/aurora-30-minute-forecast'' @
                      ''\<newline>Raw 3-day text forecast: https://services.swpc.noaa.gov/text/3-day-forecast.txt''\<rparr>)))"

section \<open>The specification's reading of the table\<close>

text \<open>
  The dates that the header of a bulletin resolves to: \<open>None\<close> without a header, else the
  result of decoding its parts.
\<close>

definition header_dates :: "clock \<Rightarrow> string list \<Rightarrow> (pyerr + pydate list) option" where
  "header_dates now lines =
     (case find_date_header lines of
        None \<Rightarrow> None
      | Some (date_header_line_idx, forecast_dates_raw) \<Rightarrow>
          Some (decode_dates (resolve_current_year now lines) (now_month now)
                  forecast_dates_raw []))"

text \<open>
  A cell of the activity table, as the specification describes it: a column, the start
  of its interval and its level. A row is a line after the header whose label matches,
  with a value for each date and a start hour from 0 to 23; its cells are the values of
  the columns that have a date and that convert to an integer level.
\<close>

type_synonym cell = "nat \<times> pydatetime \<times> int"

definition cell_column :: "cell \<Rightarrow> nat" where
  "cell_column c = fst c"

definition cell_start :: "cell \<Rightarrow> pydatetime" where
  "cell_start c = fst (snd c)"

definition cell_level :: "cell \<Rightarrow> int" where
  "cell_level c = snd (snd c)"

text \<open>The record of a cell: its interval of three hours and its level.\<close>

definition period_of_cell :: "cell \<Rightarrow> period" where
  "period_of_cell c = (cell_start c, plus_3h (cell_start c), cell_level c)"

fun cells_loop :: "pydate list \<Rightarrow> int \<Rightarrow> nat \<Rightarrow> string list \<Rightarrow> cell list" where
  "cells_loop ds h i [] = []"
| "cells_loop ds h i (kp_str # rest) =
     (if length ds \<le> i then []
      else
        (case kp_of_str kp_str of
           Inl e \<Rightarrow> []
         | Inr level \<Rightarrow> [(i, combine (ds ! i) h, level)]) @
        cells_loop ds h (Suc i) rest)"

definition row_cells :: "pydate list \<Rightarrow> string \<Rightarrow> cell list" where
  "row_cells ds raw_line =
     (let line = strip raw_line in
      if line = [] \<or> \<not> row_label_match line then []
      else
        (case split_ws line of
           [] \<Rightarrow> []
         | time_period_str # kp_value_strs \<Rightarrow>
             if length kp_value_strs < length ds then []
             else
               (case py_int (take 2 time_period_str) of
                  Inl e \<Rightarrow> []
                | Inr h \<Rightarrow> if 0 \<le> h \<and> h \<le> 23 then cells_loop ds h 0 kp_value_strs else [])))"

definition table_cells :: "clock \<Rightarrow> string list \<Rightarrow> cell list" where
  "table_cells now lines =
     (case find_date_header lines of
        None \<Rightarrow> []
      | Some (date_header_line_idx, forecast_dates_raw) \<Rightarrow>
          (case decode_dates (resolve_current_year now lines) (now_month now)
                  forecast_dates_raw [] of
             Inl e \<Rightarrow> []
           | Inr ds \<Rightarrow>
               if length ds = 3
               then concat (map (row_cells ds) (drop (date_header_line_idx + 1) lines))
               else []))"

text \<open>
  Line \<open>j\<close> is the header that the marker line \<open>i\<close> leads to: it is the first line after
  \<open>i\<close> that is not blank, it is among the three lines after \<open>i\<close>, and it has at least
  three parts of which the first is a month abbreviation.
\<close>

definition header_after :: "string list \<Rightarrow> nat \<Rightarrow> nat \<Rightarrow> bool" where
  "header_after lines i j =
     (i < j \<and> j \<le> i + 3 \<and> j < length lines \<and>
      contains (lines ! i) ''NOAA Kp index breakdown'' \<and>
      list_all (\<lambda>k. strip (lines ! k) = []) [i + 1..<j] \<and>
      strip (lines ! j) \<noteq> [] \<and>
      3 \<le> length (split_ws (strip (lines ! j))) \<and>
      month_of_abbr (strip (split_ws (strip (lines ! j)) ! 0)) \<noteq> None)"

text \<open>
  Header discovery as the specification words it: after the first line with the marker,
  among the up to three lines that follow, the first one that is not blank, has at
  least three parts and starts with a month abbreviation.
\<close>

definition header_candidate :: "string \<Rightarrow> bool" where
  "header_candidate raw_line =
     (let parts = split_ws (strip raw_line) in
      strip raw_line \<noteq> [] \<and> 3 \<le> length parts \<and>
      (case parts of [] \<Rightarrow> False | p # ps \<Rightarrow> month_of_abbr (strip p) \<noteq> None))"

definition spec_find_header :: "string list \<Rightarrow> nat option" where
  "spec_find_header lines =
     (case List.find (\<lambda>i. contains (lines ! i) ''NOAA Kp index breakdown'') [0..<length lines] of
        None \<Rightarrow> None
      | Some i \<Rightarrow>
          List.find (\<lambda>j. j < length lines \<and> header_candidate (lines ! j)) [i + 1, i + 2, i + 3])"

section \<open>Example bulletins\<close>

definition cfg5 :: config where
  "cfg5 = \<lparr>KP_THRESHOLD = 5, EMAIL_SENDER = ''me@example.org'',
     RECIPIENT_STRING = ''you@example.org'', MAGNETIC_LATITUDE = ''64.8'',
     MAGNETIC_LONGITUDE = ''-147.7''\<rparr>"

text \<open>The UTC datetime of a year, a month, a day and an hour.\<close>

definition utc :: "int \<Rightarrow> int \<Rightarrow> int \<Rightarrow> int \<Rightarrow> pydatetime" where
  "utc y m d h = \<lparr>date_of = \<lparr>year = y, month = m, day = d\<rparr>, hour = h\<rparr>"

definition now_mar_2024 :: clock where
  "now_mar_2024 = \<lparr>now_year = 2024, now_month = 3\<rparr>"

definition now_dec_2024 :: clock where
  "now_dec_2024 = \<lparr>now_year = 2024, now_month = 12\<rparr>"

definition now_jan_2025 :: clock where
  "now_jan_2025 = \<lparr>now_year = 2025, now_month = 1\<rparr>"

text \<open>A bulletin in the layout of the published product.\<close>

definition bulletin_mar :: "string list" where
  "bulletin_mar =
     ['':Product: 3-Day Forecast'',
      '':Issued: 2024 Mar 12 1230 UTC'',
      ''NOAA Kp index breakdown Mar 12-Mar 14 2024'',
      [],
      ''             Mar 12       Mar 13       Mar 14'',
      ''00-03UT       2.67         4.00         5.00'',
      ''Rationale: no storms are expected.'',
      ''00-03UT 3 4 7'',
      ''21-00UT       6.33         4.67         4.00'']"

text \<open>A bulletin issued on 31 December, once read in December and once in January.\<close>

definition bulletin_dec :: "string list" where
  "bulletin_dec =
     ['':Issued: 2024 Dec 31 1230 UTC'',
      ''NOAA Kp index breakdown Dec 31-Jan 02 2025'',
      [],
      ''             Dec 31       Jan 01       Jan 02'',
      ''23-02UT       7.00         7.00         7.00'']"

text \<open>A line of prose between the marker and the header.\<close>

definition bulletin_prose :: "string list" where
  "bulletin_prose =
     ['':Issued: 2024 Mar 12 1230 UTC'',
      ''NOAA Kp index breakdown Mar 12-Mar 14 2024'',
      ''(values are estimates)'',
      ''             Mar 12       Mar 13       Mar 14'',
      ''00-03UT       7.00         7.00         7.00'']"

text \<open>A header that names two dates only.\<close>

definition bulletin_two_dates :: "string list" where
  "bulletin_two_dates =
     [''NOAA Kp index breakdown Mar 12-Mar 13 2024'',
      ''Mar 12 Mar 13'',
      ''00-03UT 7 7 7'']"

text \<open>Rows with a value that is infinite as a float.\<close>

definition bulletin_inf :: "string list" where
  "bulletin_inf =
     ['':Issued: 2024 Mar 12 1230 UTC'',
      ''NOAA Kp index breakdown Mar 12-Mar 14 2024'',
      [],
      ''             Mar 12       Mar 13       Mar 14'',
      ''00-03UT       6.00         2.00         2.00'',
      ''03-06UT       inf          4.00         7.00'']"

definition bulletin_hour25_inf :: "string list" where
  "bulletin_hour25_inf =
     ['':Issued: 2024 Mar 12 1230 UTC'',
      ''NOAA Kp index breakdown Mar 12-Mar 14 2024'',
      [],
      ''             Mar 12       Mar 13       Mar 14'',
      ''25-28UT inf 7 7'']"

definition bulletin_hour25 :: "string list" where
  "bulletin_hour25 =
     ['':Issued: 2024 Mar 12 1230 UTC'',
      ''NOAA Kp index breakdown Mar 12-Mar 14 2024'',
      [],
      ''             Mar 12       Mar 13       Mar 14'',
      ''25-28UT 7 7 7'',
      ''00-03UT 3 4 7'']"

section \<open>Properties of the string methods\<close>

text \<open>The first part of \<^verbatim>\<open>s.split()\<close> stands at the start of \<open>s\<close>, after its leading
  whitespace.\<close>

lemma split_acc_first:
  "split_acc cur s = t # ts \<Longrightarrow>
     \<exists>r. (if cur = [] then dropWhile isspace s else cur @ s) = t @ r"
proof (induction s arbitrary: cur)
  case Nil
  then show ?case by (auto split: if_splits)
next
  case (Cons c cs)
  show ?case
  proof (cases "isspace c")
    case True
    show ?thesis
    proof (cases "cur = []")
      case True
      with Cons.prems \<open>isspace c\<close> have "split_acc [] cs = t # ts" by simp
      from Cons.IH[OF this] True \<open>isspace c\<close> show ?thesis by simp
    next
      case False
      with Cons.prems \<open>isspace c\<close> have "t = cur" by simp
      with False show ?thesis by simp
    qed
  next
    case False
    with Cons.prems have "split_acc (cur @ [c]) cs = t # ts" by simp
    from Cons.IH[OF this] obtain r where r: "(cur @ [c]) @ cs = t @ r" by auto
    show ?thesis
    proof (cases "cur = []")
      case True
      have "dropWhile isspace (c # cs) = c # cs" using False by simp
      also have "\<dots> = t @ r" using r True by simp
      finally show ?thesis using True by auto
    next
      case False
      with r show ?thesis by auto
    qed
  qed
qed

lemma strip_no_leading_space: "dropWhile isspace (strip s) = strip s"
proof -
  define x where "x = dropWhile isspace s"
  have "rev x = takeWhile isspace (rev x) @ dropWhile isspace (rev x)" by simp
  then have "x = rev (dropWhile isspace (rev x)) @ rev (takeWhile isspace (rev x))"
    by (metis rev_append rev_rev_ident)
  then have x: "x = strip s @ rev (takeWhile isspace (rev x))"
    by (simp add: strip_def x_def)
  show ?thesis
  proof (cases "strip s")
    case Nil
    then show ?thesis by simp
  next
    case (Cons c cs)
    with x have "hd x = c" "x \<noteq> []" by (cases x; simp)+
    moreover have "\<not> isspace (hd x)" if "x \<noteq> []"
      using that unfolding x_def by (rule hd_dropWhile)
    ultimately have "\<not> isspace c" by simp
    with Cons show ?thesis by simp
  qed
qed

lemma split_ws_strip_first:
  assumes "split_ws (strip s) = t # ts"
  shows "\<exists>r. strip s = t @ r"
  using split_acc_first[of "[]" "strip s" t ts] assms
  by (simp add: split_ws_def strip_no_leading_space)

section \<open>Properties of the calendar\<close>

lemma days_before_month_Suc:
  "1 \<le> m \<Longrightarrow> days_before_month y (m + 1) = days_before_month y m + days_in_month y m"
proof -
  assume "1 \<le> m"
  then have "[1..m] = [1..m - 1] @ [m]"
    by (simp add: upto_rec2)
  then show ?thesis by (simp add: days_before_month_def)
qed

lemma days_before_month_1: "days_before_month y 1 = 0"
  by (simp add: days_before_month_def)

lemma days_before_month_12:
  "days_before_month y 12 + 31 = (if is_leap y then 366 else 365)"
  by (simp add: days_before_month_def days_in_month_def upto_rec1)

lemma div_step:
  fixes y k :: int
  assumes "0 < k"
  shows "y div k = (y - 1) div k + (if y mod k = 0 then 1 else 0)"
proof -
  define r where "r = y mod k"
  define q where "q = y div k"
  have y: "y = q * k + r" by (simp add: q_def r_def)
  have r: "0 \<le> r" "r < k" using assms by (auto simp: r_def)
  show ?thesis
  proof (cases "r = 0")
    case True
    have "y - 1 = (q - 1) * k + (k - 1)" using y True by (simp add: algebra_simps)
    then have "(y - 1) div k = (q - 1) + (k - 1) div k"
      using assms by (metis div_mult_self3 less_irrefl)
    also have "(k - 1) div k = 0" using assms by (simp add: div_pos_pos_trivial)
    finally show ?thesis using True by (simp add: q_def r_def)
  next
    case False
    have "y - 1 = q * k + (r - 1)" using y by simp
    then have "(y - 1) div k = q + (r - 1) div k"
      using assms by (metis div_mult_self3 less_irrefl)
    also have "(r - 1) div k = 0" using r False by (simp add: div_pos_pos_trivial)
    finally show ?thesis using False by (simp add: q_def r_def)
  qed
qed

lemma leap_divisors:
  fixes y :: int
  shows "y mod 100 = 0 \<Longrightarrow> y mod 4 = 0" and "y mod 400 = 0 \<Longrightarrow> y mod 100 = 0"
proof -
  have "(4::int) dvd 100" and "(100::int) dvd 400" by simp_all
  then show "y mod 100 = 0 \<Longrightarrow> y mod 4 = 0" and "y mod 400 = 0 \<Longrightarrow> y mod 100 = 0"
    by (auto simp: mod_eq_0_iff_dvd intro: dvd_trans)
qed

lemma days_before_year_Suc:
  "days_before_year (y + 1) = days_before_year y + (if is_leap y then 366 else 365)"
proof -
  have d4: "y div 4 = (y - 1) div 4 + (if y mod 4 = 0 then 1 else 0)"
    by (rule div_step) simp
  have d100: "y div 100 = (y - 1) div 100 + (if y mod 100 = 0 then 1 else 0)"
    by (rule div_step) simp
  have d400: "y div 400 = (y - 1) div 400 + (if y mod 400 = 0 then 1 else 0)"
    by (rule div_step) simp
  have "days_before_year (y + 1) = y * 365 + y div 4 - y div 100 + y div 400"
    by (simp add: days_before_year_def)
  also have "\<dots> = days_before_year y + 365 + (if y mod 4 = 0 then 1 else 0)
      - (if y mod 100 = 0 then 1 else 0) + (if y mod 400 = 0 then 1 else 0)"
    unfolding days_before_year_def
    by (subst d4, subst d100, subst d400) (simp add: algebra_simps)
  also have "\<dots> = days_before_year y + (if is_leap y then 366 else 365)"
    using leap_divisors[of y] by (auto simp: is_leap_def)
  finally show ?thesis .
qed

lemma toordinal_next_day:
  assumes "valid_date d"
  shows "toordinal (next_day d) = toordinal d + 1"
proof (cases "day d < days_in_month (year d) (month d)")
  case True
  then show ?thesis by (simp add: next_day_def toordinal_def)
next
  case False
  with assms have last: "day d = days_in_month (year d) (month d)"
    by (simp add: valid_date_def)
  show ?thesis
  proof (cases "month d < 12")
    case True
    from assms have "1 \<le> month d" by (simp add: valid_date_def)
    from days_before_month_Suc[OF this] last True False show ?thesis
      by (simp add: next_day_def toordinal_def)
  next
    case m12: False
    with assms have m: "month d = 12" by (simp add: valid_date_def)
    with last have "day d = 31" by (simp add: days_in_month_def)
    with m False days_before_month_12[of "year d"] days_before_year_Suc[of "year d"]
    show ?thesis
      by (simp add: next_day_def toordinal_def days_before_month_1 days_in_month_def)
  qed
qed

lemma hours_plus_3h:
  assumes "valid_date (date_of dt)" "0 \<le> hour dt" "hour dt \<le> 23"
  shows "hours_since_epoch (plus_3h dt) = hours_since_epoch dt + 3"
  using assms toordinal_next_day[of "date_of dt"]
  by (simp add: plus_3h_def hours_since_epoch_def)

lemma plus_3h_day_boundary:
  assumes "valid_date (date_of dt)" "hour dt = 23"
  shows "hour (plus_3h dt) = 2 \<and> toordinal (date_of (plus_3h dt)) = toordinal (date_of dt) + 1"
  using assms toordinal_next_day[of "date_of dt"]
  by (simp add: plus_3h_def)

lemma date_new_Inr:
  "date_new y m d = Inr dd \<Longrightarrow> valid_date dd \<and> year dd = y \<and> month dd = m \<and> day dd = d"
  by (auto simp: date_new_def split: if_splits)

section \<open>Properties of the conversion of values\<close>

lemma digit_val_range: "digit_val c = Some d \<Longrightarrow> 0 \<le> d \<and> d \<le> 9"
  by (auto simp: digit_val_def split: if_splits)

lemma digits_val_nonneg: "0 \<le> acc \<Longrightarrow> 0 \<le> digits_val acc s"
proof (induction s arbitrary: acc)
  case Nil
  then show ?case by simp
next
  case (Cons c s)
  have "0 \<le> (case digit_val c of Some d \<Rightarrow> d | None \<Rightarrow> 0)"
    by (auto dest: digit_val_range split: option.splits)
  with Cons.prems have "0 \<le> 10 * acc + (case digit_val c of Some d \<Rightarrow> d | None \<Rightarrow> 0)"
    by simp
  from Cons.IH[OF this] show ?case by simp
qed

lemma to_double_Finite:
  assumes "to_double neg num den = Finite s m p" and "0 \<le> num" and "0 \<le> den"
  shows "0 \<le> m"
proof (cases "num = 0")
  case True
  with assms(1) show ?thesis by (simp add: to_double_def)
next
  case False
  define e where "e = max (floor_log2 num den - 52) (- 1074)"
  define N where "N = (if e < 0 then num * 2 ^ nat (- e) else num)"
  define D where "D = (if e < 0 then den else den * 2 ^ nat e)"
  have "0 \<le> N" "0 \<le> D" using assms(2,3) by (simp_all add: N_def D_def)
  then have q: "0 \<le> N div D" by (simp add: div_int_pos_iff)
  from assms(1) False have "m = N div D \<or> m = N div D + 1"
    by (auto simp: to_double_def Let_def e_def N_def D_def split: if_splits)
  with q show ?thesis by auto
qed

lemma py_float_Finite:
  assumes "py_float kp_str = Inr (Finite s m p)"
  shows "0 \<le> m"
proof -
  from assms obtain neg num den where
    "to_double neg num den = Finite s m p" "0 \<le> num" "0 \<le> den"
    by (auto simp: py_float_def decimal_to_double_def Let_def digits_val_nonneg
        split: option.splits prod.splits if_splits)
  then show ?thesis by (rule to_double_Finite)
qed

lemma floor_scaled:
  fixes m :: int
  shows "\<lfloor>(of_int m :: rat) / 2 ^ k\<rfloor> = m div 2 ^ k"
proof -
  have "(of_int m :: rat) / 2 ^ k = of_int m / of_int (2 ^ k)" by simp
  then show ?thesis by (simp only: floor_divide_of_int_eq)
qed

lemma floor_int_scaled:
  fixes m :: int
  shows "\<lfloor>(of_int m :: rat) * 2 ^ k\<rfloor> = m * 2 ^ k"
proof -
  have "(of_int m :: rat) * 2 ^ k = of_int (m * 2 ^ k)" by simp
  then show ?thesis by (simp only: floor_of_int)
qed

lemma kp_of_str_errors: "kp_of_str kp_str \<noteq> Inl IndexError"
proof -
  have "py_float kp_str \<noteq> Inl IndexError"
    by (auto simp: py_float_def Let_def split: option.splits prod.splits if_splits)
  moreover have "py_int_of_float x \<noteq> Inl IndexError" for x
    by (cases x) (auto simp: Let_def)
  ultimately show ?thesis by (auto simp: kp_of_str_def split: sum.splits)
qed

lemma kp_values_3_4_7:
  "kp_of_str ''3'' = Inr 3" "kp_of_str ''4'' = Inr 4" "kp_of_str ''7'' = Inr 7"
  by code_simp+

lemma kp_of_str_nan: "kp_of_str ''nan'' = Inl ValueError" "kp_of_str ''(G1)'' = Inl ValueError"
  by code_simp+

section \<open>Properties of the header\<close>

lemma month_str_to_int_Inr: "(\<exists>m. month_str_to_int s = Inr m) \<longleftrightarrow> month_of_abbr (strip s) \<noteq> None"
  by (auto simp: month_str_to_int_def split: option.splits)

lemma check_offsets_unfold:
  "check_offsets lines i next_line_offsets =
     (if i + 1 < length lines then
        (if strip (lines ! (i + 1)) = [] then
           (if i + 2 < length lines then
              (if strip (lines ! (i + 2)) = [] then
                 (if i + 3 < length lines then
                    (if strip (lines ! (i + 3)) = [] then None
                     else if 3 \<le> length (split_ws (strip (lines ! (i + 3)))) \<and>
                             month_of_abbr (strip (split_ws (strip (lines ! (i + 3))) ! 0)) \<noteq> None
                          then Some (i + 3, split_ws (strip (lines ! (i + 3)))) else None)
                  else None)
               else if 3 \<le> length (split_ws (strip (lines ! (i + 2)))) \<and>
                       month_of_abbr (strip (split_ws (strip (lines ! (i + 2))) ! 0)) \<noteq> None
                    then Some (i + 2, split_ws (strip (lines ! (i + 2)))) else None)
            else None)
         else if 3 \<le> length (split_ws (strip (lines ! (i + 1)))) \<and>
                 month_of_abbr (strip (split_ws (strip (lines ! (i + 1))) ! 0)) \<noteq> None
              then Some (i + 1, split_ws (strip (lines ! (i + 1)))) else None)
      else None)"
  by (simp add: next_line_offsets_def check_offsets.simps Let_def month_str_to_int_def
      split: option.splits)

lemma upt_window:
  "[Suc i..<Suc i] = []" "[Suc i..<i + 2] = [Suc i]" "[Suc i..<i + 3] = [Suc i, Suc (Suc i)]"
  by (simp_all add: upt_rec)

lemma check_offsets_Some_iff:
  assumes "contains (lines ! i) ''NOAA Kp index breakdown''"
  shows "check_offsets lines i next_line_offsets = Some (j, parts) \<longleftrightarrow>
     header_after lines i j \<and> parts = split_ws (strip (lines ! j))"
proof
  assume "check_offsets lines i next_line_offsets = Some (j, parts)"
  then have "(j = i + 1 \<or> j = i + 2 \<or> j = i + 3) \<and> header_after lines i j \<and>
      parts = split_ws (strip (lines ! j))"
    using assms unfolding check_offsets_unfold header_after_def
    by (auto simp: upt_window split: if_splits)
  then show "header_after lines i j \<and> parts = split_ws (strip (lines ! j))" by blast
next
  assume a: "header_after lines i j \<and> parts = split_ws (strip (lines ! j))"
  then have "j = i + 1 \<or> j = i + 2 \<or> j = i + 3"
    by (auto simp: header_after_def)
  with a show "check_offsets lines i next_line_offsets = Some (j, parts)"
    unfolding check_offsets_unfold header_after_def
    by (auto simp: upt_window)
qed

lemma header_scan_upt:
  "header_scan lines [k..<n] = Some h \<Longrightarrow>
     \<exists>i. k \<le> i \<and> i < n \<and> contains (lines ! i) ''NOAA Kp index breakdown'' \<and>
       check_offsets lines i next_line_offsets = Some h \<and>
       (\<forall>i'. k \<le> i' \<and> i' < i \<and> contains (lines ! i') ''NOAA Kp index breakdown'' \<longrightarrow>
          check_offsets lines i' next_line_offsets = None)"
proof (induction "n - k" arbitrary: k)
  case 0
  then show ?case by simp
next
  case (Suc d)
  then have kn: "k < n" and d: "d = n - Suc k" by auto
  then have upt: "[k..<n] = k # [Suc k..<n]" by (simp add: upt_conv_Cons)
  show ?case
  proof (cases "contains (lines ! k) ''NOAA Kp index breakdown'' \<and>
      check_offsets lines k next_line_offsets \<noteq> None")
    case True
    with Suc.prems upt have "check_offsets lines k next_line_offsets = Some h" by auto
    with True kn show ?thesis by (intro exI[of _ k]) auto
  next
    case False
    with Suc.prems upt have "header_scan lines [Suc k..<n] = Some h"
      by (auto split: if_splits option.splits)
    from Suc.hyps(1)[OF d this] obtain i where
      i: "Suc k \<le> i" "i < n" "contains (lines ! i) ''NOAA Kp index breakdown''"
        "check_offsets lines i next_line_offsets = Some h"
        "\<forall>i'. Suc k \<le> i' \<and> i' < i \<and> contains (lines ! i') ''NOAA Kp index breakdown'' \<longrightarrow>
          check_offsets lines i' next_line_offsets = None"
      by blast
    have "\<forall>i'. k \<le> i' \<and> i' < i \<and> contains (lines ! i') ''NOAA Kp index breakdown'' \<longrightarrow>
          check_offsets lines i' next_line_offsets = None"
    proof (intro allI impI)
      fix i' assume a: "k \<le> i' \<and> i' < i \<and> contains (lines ! i') ''NOAA Kp index breakdown''"
      show "check_offsets lines i' next_line_offsets = None"
      proof (cases "i' = k")
        case True
        with a False show ?thesis by (cases "check_offsets lines k next_line_offsets") auto
      next
        case False
        with a have "Suc k \<le> i'" by simp
        with a i(5) show ?thesis by blast
      qed
    qed
    with i show ?thesis by (intro exI[of _ i]) auto
  qed
qed

lemma header_scan_None:
  "header_scan lines is = None \<longleftrightarrow>
     (\<forall>i \<in> set is. contains (lines ! i) ''NOAA Kp index breakdown'' \<longrightarrow>
        check_offsets lines i next_line_offsets = None)"
  by (induction "is") (auto split: option.splits)

lemma find_date_header_Some:
  assumes "find_date_header lines = Some (j, parts)"
  shows "parts = split_ws (strip (lines ! j)) \<and>
     (\<exists>i. header_after lines i j \<and>
        (\<forall>i' j'. i' < i \<longrightarrow> \<not> header_after lines i' j'))"
proof -
  from assms obtain i where
    i: "i < length lines" "contains (lines ! i) ''NOAA Kp index breakdown''"
      "check_offsets lines i next_line_offsets = Some (j, parts)"
      "\<forall>i'. 0 \<le> i' \<and> i' < i \<and> contains (lines ! i') ''NOAA Kp index breakdown'' \<longrightarrow>
          check_offsets lines i' next_line_offsets = None"
    unfolding find_date_header_def by (blast dest: header_scan_upt)
  from i(2,3) have h: "header_after lines i j" "parts = split_ws (strip (lines ! j))"
    by (simp_all add: check_offsets_Some_iff)
  have "\<not> header_after lines i' j'" if "i' < i" for i' j'
  proof
    assume a: "header_after lines i' j'"
    then have m: "contains (lines ! i') ''NOAA Kp index breakdown''"
      by (simp add: header_after_def)
    with a have "check_offsets lines i' next_line_offsets = Some (j', split_ws (strip (lines ! j')))"
      by (simp add: check_offsets_Some_iff)
    with i(4) that m show False by simp
  qed
  with h show ?thesis by blast
qed

lemma find_date_header_None:
  "find_date_header lines = None \<longleftrightarrow> (\<forall>i j. \<not> header_after lines i j)"
proof
  assume n: "find_date_header lines = None"
  show "\<forall>i j. \<not> header_after lines i j"
  proof (intro allI notI)
    fix i j assume a: "header_after lines i j"
    then have m: "contains (lines ! i) ''NOAA Kp index breakdown''" and "i < length lines"
      by (auto simp: header_after_def)
    with n have "check_offsets lines i next_line_offsets = None"
      by (auto simp: find_date_header_def header_scan_None)
    moreover from a m have
      "check_offsets lines i next_line_offsets = Some (j, split_ws (strip (lines ! j)))"
      by (simp add: check_offsets_Some_iff)
    ultimately show False by simp
  qed
next
  assume a: "\<forall>i j. \<not> header_after lines i j"
  show "find_date_header lines = None"
  proof (rule ccontr)
    assume "find_date_header lines \<noteq> None"
    then obtain j parts where "find_date_header lines = Some (j, parts)" by auto
    from find_date_header_Some[OF this] a show False by blast
  qed
qed

section \<open>Properties of the forecast dates\<close>

lemma decode_dates_full: "\<not> length acc < 3 \<Longrightarrow> decode_dates cy nm raw acc = Inr acc"
  by (simp add: decode_dates.simps)

lemma decode_dates_Nil: "decode_dates cy nm [] acc = Inr acc"
  by (simp add: decode_dates.simps)

lemma decode_dates_single:
  "length acc < 3 \<Longrightarrow>
     decode_dates cy nm [month_str] acc =
       (case month_str_to_int month_str of Inl e \<Rightarrow> Inl e | Inr m \<Rightarrow> Inl ValueError)"
  by (simp add: decode_dates.simps split: sum.splits)

lemma decode_dates_Cons:
  "length acc < 3 \<Longrightarrow>
     decode_dates cy nm (month_str # day_str # raw2) acc =
       (case month_str_to_int month_str of
          Inl e \<Rightarrow> Inl e
        | Inr m \<Rightarrow>
            if isdigit day_str then
              (case py_int day_str of
                 Inl e \<Rightarrow> Inl e
               | Inr day_int \<Rightarrow>
                   (case date_new (year_for_forecast cy nm m) m day_int of
                      Inl e \<Rightarrow> Inl e
                    | Inr d \<Rightarrow> decode_dates cy nm raw2 (acc @ [d])))
            else Inl ValueError)"
  by (simp add: decode_dates.simps[of cy nm "month_str # day_str # raw2" acc] split: sum.splits)

lemma decode_dates_Inr:
  "decode_dates cy nm raw acc = Inr ds \<Longrightarrow>
     \<exists>new. ds = acc @ new \<and> length ds \<le> max 3 (length acc) \<and>
       (\<forall>i < length new.
          2 * i + 1 < length raw \<and>
          month_str_to_int (raw ! (2 * i)) = Inr (month (new ! i)) \<and>
          isdigit (raw ! (2 * i + 1)) \<and>
          py_int (raw ! (2 * i + 1)) = Inr (day (new ! i)) \<and>
          year (new ! i) = year_for_forecast cy nm (month (new ! i)) \<and>
          valid_date (new ! i))"
proof (induction cy nm raw acc arbitrary: ds rule: decode_dates.induct)
  case (1 cy nm raw acc)
  show ?case
  proof (cases "length acc < 3")
    case False
    with "1.prems" show ?thesis by (simp add: decode_dates_full)
  next
    case True
    show ?thesis
    proof (cases raw)
      case Nil
      with True "1.prems" show ?thesis by (simp add: decode_dates_Nil)
    next
      case (Cons month_str raw1)
      show ?thesis
      proof (cases raw1)
        case Nil
        with True "1.prems" Cons show ?thesis
          by (simp add: decode_dates_single split: sum.splits)
      next
        case raw1: (Cons day_str raw2)
        with True "1.prems" Cons obtain m day_int d where
          m: "month_str_to_int month_str = Inr m" and
          dig: "isdigit day_str" and di: "py_int day_str = Inr day_int"
          and d: "date_new (year_for_forecast cy nm m) m day_int = Inr d"
          and rest: "decode_dates cy nm raw2 (acc @ [d]) = Inr ds"
          by (auto simp: decode_dates_Cons split: sum.splits if_splits)
        from "1.IH"[OF True Cons m raw1 dig di d rest] obtain new where
          ds: "ds = (acc @ [d]) @ new" and len: "length ds \<le> max 3 (length (acc @ [d]))"
          and new: "\<forall>i < length new.
            2 * i + 1 < length raw2 \<and>
            month_str_to_int (raw2 ! (2 * i)) = Inr (month (new ! i)) \<and>
            isdigit (raw2 ! (2 * i + 1)) \<and>
            py_int (raw2 ! (2 * i + 1)) = Inr (day (new ! i)) \<and>
            year (new ! i) = year_for_forecast cy nm (month (new ! i)) \<and>
            valid_date (new ! i)"
          by blast
        from date_new_Inr[OF d] have dd: "valid_date d" "year d = year_for_forecast cy nm m"
          "month d = m" "day d = day_int" by auto
        have "\<forall>i < length (d # new).
            2 * i + 1 < length raw \<and>
            month_str_to_int (raw ! (2 * i)) = Inr (month ((d # new) ! i)) \<and>
            isdigit (raw ! (2 * i + 1)) \<and>
            py_int (raw ! (2 * i + 1)) = Inr (day ((d # new) ! i)) \<and>
            year ((d # new) ! i) = year_for_forecast cy nm (month ((d # new) ! i)) \<and>
            valid_date ((d # new) ! i)"
        proof (intro allI impI)
          fix i assume i: "i < length (d # new)"
          show "2 * i + 1 < length raw \<and>
            month_str_to_int (raw ! (2 * i)) = Inr (month ((d # new) ! i)) \<and>
            isdigit (raw ! (2 * i + 1)) \<and>
            py_int (raw ! (2 * i + 1)) = Inr (day ((d # new) ! i)) \<and>
            year ((d # new) ! i) = year_for_forecast cy nm (month ((d # new) ! i)) \<and>
            valid_date ((d # new) ! i)"
          proof (cases i)
            case 0
            with Cons raw1 m dig di dd show ?thesis by simp
          next
            case (Suc j)
            with i have "j < length new" by simp
            with new have "2 * j + 1 < length raw2 \<and>
              month_str_to_int (raw2 ! (2 * j)) = Inr (month (new ! j)) \<and>
              isdigit (raw2 ! (2 * j + 1)) \<and>
              py_int (raw2 ! (2 * j + 1)) = Inr (day (new ! j)) \<and>
              year (new ! j) = year_for_forecast cy nm (month (new ! j)) \<and>
              valid_date (new ! j)" by blast
            with Suc Cons raw1 show ?thesis by simp
          qed
        qed
        with ds len True show ?thesis by (intro exI[of _ "d # new"]) auto
      qed
    qed
  qed
qed

lemma decode_dates_three:
  assumes "decode_dates cy nm raw [] = Inr ds"
  shows "length ds \<le> 3 \<and>
       (\<forall>i < length ds.
          2 * i + 1 < length raw \<and>
          month_str_to_int (raw ! (2 * i)) = Inr (month (ds ! i)) \<and>
          isdigit (raw ! (2 * i + 1)) \<and>
          py_int (raw ! (2 * i + 1)) = Inr (day (ds ! i)) \<and>
          year (ds ! i) = year_for_forecast cy nm (month (ds ! i)) \<and>
          valid_date (ds ! i))"
  using decode_dates_Inr[OF assms] by auto

lemma decode_dates_valid:
  assumes "decode_dates cy nm raw [] = Inr ds" and "d \<in> set ds"
  shows "valid_date d"
proof -
  from assms(2) obtain i where "i < length ds" "ds ! i = d" by (auto simp: in_set_conv_nth)
  with decode_dates_three[OF assms(1)] show ?thesis by auto
qed

section \<open>Properties of the rows\<close>

lemma token_periods_Inr:
  "token_periods thr d h kp_str = Inr ps \<Longrightarrow>
     \<exists>k. kp_of_str kp_str = Inr k \<and>
       (if thr \<le> k then 0 \<le> h \<and> h \<le> 23 \<and> year (date_of (plus_3h (combine d h))) \<le> 9999 \<and>
          ps = [(combine d h, plus_3h (combine d h), k)]
        else ps = [])"
  by (auto simp: token_periods_def dt_time_def datetime_add_3h_def Let_def
      split: sum.splits if_splits)

lemma token_periods_ValueError:
  "token_periods thr d h kp_str = Inl ValueError \<Longrightarrow>
     kp_of_str kp_str = Inl ValueError \<or>
     (\<exists>k. kp_of_str kp_str = Inr k \<and> thr \<le> k \<and> \<not> (0 \<le> h \<and> h \<le> 23))"
  by (auto simp: token_periods_def dt_time_def datetime_add_3h_def Let_def
      split: sum.splits if_splits)

lemma kp_loop_skip_value:
  "kp_of_str kp_str = Inl ValueError \<Longrightarrow>
     kp_loop thr ds h i (kp_str # rest) =
       (if length ds \<le> i then Inr [] else kp_loop thr ds h (Suc i) rest)"
  by (simp add: token_periods_def)

lemma kp_loop_bad_hour:
  "\<not> (0 \<le> h \<and> h \<le> 23) \<Longrightarrow> kp_loop thr ds h i toks = Inr ps \<Longrightarrow> ps = []"
proof (induction toks arbitrary: i ps)
  case Nil
  then show ?case by simp
next
  case (Cons t toks)
  show ?case
  proof (cases "length ds \<le> i")
    case True
    with Cons.prems show ?thesis by simp
  next
    case False
    show ?thesis
    proof (cases "token_periods thr (ds ! i) h t")
      case (Inl e)
      with Cons.prems False have "kp_loop thr ds h (Suc i) toks = Inr ps"
        by (simp split: if_splits)
      with Cons.IH Cons.prems(1) show ?thesis by blast
    next
      case (Inr qs)
      with Cons.prems False obtain rs where
        rs: "kp_loop thr ds h (Suc i) toks = Inr rs" and ps: "ps = qs @ rs"
        by (auto split: sum.splits)
      from token_periods_Inr[OF Inr] Cons.prems(1) have "qs = []"
        by (auto split: if_splits)
      moreover from Cons.IH[OF Cons.prems(1) rs] have "rs = []" .
      ultimately show ?thesis using ps by simp
    qed
  qed
qed

text \<open>With a start hour that is no hour of the day and no value that is infinite as a
  float, a row gives no period and raises nothing.\<close>

lemma kp_loop_bad_hour_total:
  assumes "\<not> (0 \<le> h \<and> h \<le> 23)"
    and "list_all (\<lambda>kp_str. kp_of_str kp_str \<noteq> Inl OverflowError) toks"
  shows "kp_loop thr ds h i toks = Inr []"
  using assms(2)
proof (induction toks arbitrary: i)
  case Nil
  then show ?case by simp
next
  case (Cons t toks)
  then have rest: "kp_loop thr ds h (Suc i) toks = Inr []" by simp
  have "kp_of_str t = Inl ValueError \<or> (\<exists>k. kp_of_str t = Inr k)"
  proof (cases "kp_of_str t")
    case (Inl e)
    with Cons.prems kp_of_str_errors[of t] show ?thesis by (cases e) auto
  next
    case (Inr k)
    then show ?thesis by simp
  qed
  moreover have "dt_time h = Inl ValueError"
    using assms(1) by (auto simp: dt_time_def)
  ultimately have "token_periods thr (ds ! i) h t = Inl ValueError \<or>
      token_periods thr (ds ! i) h t = Inr []"
    by (auto simp: token_periods_def split: if_splits)
  with rest show ?case by auto
qed

text \<open>What is skipped: a line that is no row, a row with fewer values than dates, and a
  value on which \<^verbatim>\<open>int(float(kp_str))\<close> raises \<^verbatim>\<open>ValueError\<close>.\<close>

lemma row_periods_no_row:
  "strip l = [] \<or> \<not> row_label_match (strip l) \<Longrightarrow> row_periods thr ds l = Inr []"
  by (auto simp: row_periods_def)

lemma row_periods_short:
  "split_ws (strip l) = time_period_str # kp_value_strs \<Longrightarrow>
     length kp_value_strs < length ds \<Longrightarrow> row_periods thr ds l = Inr []"
  by (simp add: row_periods_def Let_def)

text \<open>A row whose start hour is no hour of the day, when none of its values is infinite
  as a float.\<close>

lemma row_periods_bad_hour:
  assumes "split_ws (strip l) = time_period_str # kp_value_strs"
    and "py_int (take 2 time_period_str) = Inr h" and "\<not> (0 \<le> h \<and> h \<le> 23)"
    and "list_all (\<lambda>kp_str. kp_of_str kp_str \<noteq> Inl OverflowError) kp_value_strs"
  shows "row_periods thr ds l = Inr []"
  using assms kp_loop_bad_hour_total[OF assms(3,4)]
  by (simp add: row_periods_def Let_def)

lemma row_00_03_label: "row_label_match (''00-03UT'' @ r)"
  by (simp add: row_label_match_def is_decimal_def digit_val_def)

lemma row_00_03_hour: "py_int (take 2 ''00-03UT'') = Inr 0"
  by code_simp

lemma row_00_03_periods:
  assumes "split_ws (strip l) = [''00-03UT'', ''3'', ''4'', ''7'']" and "year D2 \<le> 9999"
  shows "row_periods 5 [D0, D1, D2] l = Inr [(combine D2 0, combine D2 3, 7)]"
proof -
  from split_ws_strip_first[OF assms(1)] obtain r where r: "strip l = ''00-03UT'' @ r"
    by blast
  then have "row_label_match (strip l)" "strip l \<noteq> []"
    using row_00_03_label[of r] by simp_all
  then show ?thesis
    using assms row_00_03_hour
    by (simp add: row_periods_def token_periods_def kp_values_3_4_7 dt_time_def
        datetime_add_3h_def plus_3h_def combine_def)
qed

lemma row_00_03_cells:
  assumes "split_ws (strip l) = [''00-03UT'', ''3'', ''4'', ''7'']"
  shows "row_cells [D0, D1, D2] l = [(0, combine D0 0, 3), (1, combine D1 0, 4), (2, combine D2 0, 7)]"
proof -
  from split_ws_strip_first[OF assms(1)] obtain r where r: "strip l = ''00-03UT'' @ r"
    by blast
  then have "row_label_match (strip l)" "strip l \<noteq> []"
    using row_00_03_label[of r] by simp_all
  then show ?thesis
    using assms row_00_03_hour
    by (simp add: row_cells_def kp_values_3_4_7)
qed

lemma rows_loop_append:
  "rows_loop thr ds (xs @ ys) =
     (case rows_loop thr ds xs of
        Inl e \<Rightarrow> Inl e
      | Inr ps \<Rightarrow> (case rows_loop thr ds ys of Inl e \<Rightarrow> Inl e | Inr qs \<Rightarrow> Inr (ps @ qs)))"
  by (induction xs) (auto split: sum.splits)

lemma rows_loop_split:
  assumes "rows_loop thr ds (xs @ l # ys) = Inr recs"
  shows "\<exists>before ps after. rows_loop thr ds xs = Inr before \<and> row_periods thr ds l = Inr ps \<and>
     rows_loop thr ds ys = Inr after \<and> recs = before @ ps @ after"
  using assms by (auto simp: rows_loop_append split: sum.splits)

lemma rows_loop_skip:
  "row_periods thr ds l = Inr [] \<Longrightarrow>
     rows_loop thr ds (before @ l # after) = rows_loop thr ds (before @ after)"
  by (simp add: rows_loop_append split: sum.splits)

section \<open>Properties of the cells\<close>

lemma kp_loop_cells:
  "0 \<le> h \<Longrightarrow> h \<le> 23 \<Longrightarrow> kp_loop thr ds h i toks = Inr ps \<Longrightarrow>
     ps = map period_of_cell (filter (\<lambda>c. thr \<le> cell_level c) (cells_loop ds h i toks))"
proof (induction toks arbitrary: i ps)
  case Nil
  then show ?case by simp
next
  case (Cons t toks)
  show ?case
  proof (cases "length ds \<le> i")
    case True
    with Cons.prems show ?thesis by simp
  next
    case False
    show ?thesis
    proof (cases "token_periods thr (ds ! i) h t")
      case (Inl e)
      with Cons.prems False have e: "e = ValueError"
        and rest: "kp_loop thr ds h (Suc i) toks = Inr ps"
        by (auto split: if_splits)
      from token_periods_ValueError Inl e Cons.prems(1,2)
      have "kp_of_str t = Inl ValueError" by blast
      with Cons.IH[OF Cons.prems(1,2) rest] False show ?thesis by simp
    next
      case (Inr qs)
      with Cons.prems False obtain rs where
        rs: "kp_loop thr ds h (Suc i) toks = Inr rs" and ps: "ps = qs @ rs"
        by (auto split: sum.splits)
      from token_periods_Inr[OF Inr] obtain k where
        k: "kp_of_str t = Inr k"
        and qs: "qs = (if thr \<le> k then [(combine (ds ! i) h, plus_3h (combine (ds ! i) h), k)] else [])"
        by (auto split: if_splits)
      from Cons.IH[OF Cons.prems(1,2) rs] ps qs k False show ?thesis
        by (simp add: period_of_cell_def cell_level_def cell_start_def)
    qed
  qed
qed

lemma row_periods_cells:
  "row_periods thr ds l = Inr ps \<Longrightarrow>
     ps = map period_of_cell (filter (\<lambda>c. thr \<le> cell_level c) (row_cells ds l))"
proof (cases "strip l = [] \<or> \<not> row_label_match (strip l)")
  case True
  assume "row_periods thr ds l = Inr ps"
  with True show ?thesis by (auto simp: row_periods_def row_cells_def)
next
  case False
  assume a: "row_periods thr ds l = Inr ps"
  show ?thesis
  proof (cases "split_ws (strip l)")
    case Nil
    with a False show ?thesis by (simp add: row_periods_def row_cells_def)
  next
    case (Cons lab vals)
    show ?thesis
    proof (cases "length vals < length ds")
      case True
      with a False Cons show ?thesis by (simp add: row_periods_def row_cells_def)
    next
      case short: False
      show ?thesis
      proof (cases "py_int (take 2 lab)")
        case (Inl e)
        with a False Cons short show ?thesis
          by (simp add: row_periods_def row_cells_def split: if_splits)
      next
        case (Inr h)
        with a False Cons short have kl: "kp_loop thr ds h 0 vals = Inr ps"
          by (simp add: row_periods_def)
        show ?thesis
        proof (cases "0 \<le> h \<and> h \<le> 23")
          case True
          with kp_loop_cells[OF _ _ kl] False Cons short Inr show ?thesis
            by (simp add: row_cells_def)
        next
          case bad: False
          from kp_loop_bad_hour[OF bad kl] False Cons short Inr bad show ?thesis
            by (auto simp: row_cells_def)
        qed
      qed
    qed
  qed
qed

lemma rows_loop_cells:
  "rows_loop thr ds ls = Inr recs \<Longrightarrow>
     recs = map period_of_cell
              (filter (\<lambda>c. thr \<le> cell_level c) (concat (map (row_cells ds) ls)))"
proof (induction ls arbitrary: recs)
  case Nil
  then show ?case by simp
next
  case (Cons l ls)
  from Cons.prems obtain ps qs where
    ps: "row_periods thr ds l = Inr ps" and qs: "rows_loop thr ds ls = Inr qs"
    and recs: "recs = ps @ qs"
    by (auto split: sum.splits)
  from row_periods_cells[OF ps] Cons.IH[OF qs] recs show ?case by simp
qed

lemma cells_loop_mem:
  "c \<in> set (cells_loop ds h i toks) \<Longrightarrow>
     cell_column c < length ds \<and> cell_start c = combine (ds ! cell_column c) h"
  by (induction toks arbitrary: i)
    (auto simp: cell_column_def cell_start_def split: if_splits sum.splits)

lemma row_cells_mem:
  "c \<in> set (row_cells ds l) \<Longrightarrow>
     cell_column c < length ds \<and>
     (\<exists>h. 0 \<le> h \<and> h \<le> 23 \<and> cell_start c = combine (ds ! cell_column c) h)"
  by (auto simp: row_cells_def Let_def dest!: cells_loop_mem
      split: if_splits list.splits sum.splits)

section \<open>Properties of the parse\<close>

text \<open>\<^verbatim>\<open>parse_forecast\<close> is \<open>parse_lines\<close> on the lines of the text, also for the empty
  text.\<close>

lemma parse_forecast_lines:
  "parse_forecast cfg now forecast_text = parse_lines cfg now (splitlines forecast_text)"
  by (simp add: parse_forecast_def parse_lines_def splitlines_def find_date_header_def)

lemma parse_lines_no_header:
  "find_date_header lines = None \<Longrightarrow> parse_lines cfg now lines = Inr []"
  by (simp add: parse_lines_def)

lemma parse_lines_nonempty:
  assumes "parse_lines cfg now lines = Inr recs" and "recs \<noteq> []"
  shows "\<exists>ds. header_dates now lines = Some (Inr ds) \<and> length ds = 3"
  using assms
  by (auto simp: parse_lines_def header_dates_def Let_def
      split: option.splits sum.splits if_splits)

lemma parse_lines_cells:
  "parse_lines cfg now lines = Inr recs \<Longrightarrow>
     recs = map period_of_cell
              (filter (\<lambda>c. KP_THRESHOLD cfg \<le> cell_level c) (table_cells now lines))"
  by (auto simp: parse_lines_def table_cells_def Let_def dest: rows_loop_cells
      split: option.splits sum.splits if_splits prod.splits)

lemma table_cells_mem:
  assumes "c \<in> set (table_cells now lines)"
  shows "\<exists>ds. header_dates now lines = Some (Inr ds) \<and> length ds = 3 \<and>
     cell_column c < 3 \<and> valid_date (ds ! cell_column c) \<and>
     (\<exists>h. 0 \<le> h \<and> h \<le> 23 \<and> cell_start c = combine (ds ! cell_column c) h)"
proof -
  obtain idx raw where hdr: "find_date_header lines = Some (idx, raw)"
    using assms by (cases "find_date_header lines") (auto simp: table_cells_def)
  obtain ds where
    dec: "decode_dates (resolve_current_year now lines) (now_month now) raw [] = Inr ds"
    using assms hdr
    by (cases "decode_dates (resolve_current_year now lines) (now_month now) raw []")
      (auto simp: table_cells_def)
  have len: "length ds = 3"
    using assms hdr dec by (auto simp: table_cells_def split: if_splits)
  obtain l where c: "c \<in> set (row_cells ds l)"
    using assms hdr dec len by (auto simp: table_cells_def)
  from row_cells_mem[OF c] len have col: "cell_column c < 3"
    and h: "\<exists>h. 0 \<le> h \<and> h \<le> 23 \<and> cell_start c = combine (ds ! cell_column c) h"
    by auto
  from col len have "ds ! cell_column c \<in> set ds" by simp
  with decode_dates_valid[OF dec] have "valid_date (ds ! cell_column c)" by blast
  with hdr dec len col h show ?thesis by (auto simp: header_dates_def)
qed

section \<open>Properties of the alert\<close>

lemma sort_remdups_nonempty: "sort (remdups (x # xs)) \<noteq> []"
proof -
  have "x \<in> set (sort (remdups (x # xs)))" by simp
  then show ?thesis by (metis empty_iff empty_set)
qed

section \<open>The claims\<close>

subsection \<open>C1: the threshold\<close>

text \<open>
  C1. For a bulletin that \<^verbatim>\<open>parse_forecast\<close> parses and a threshold \<open>t\<close>, a cell of the
  activity table (an interval and a level) is among the returned periods if and only if
  its level is at least \<open>t\<close>; a cell with level \<open>t\<close> is among them and a cell with level
  \<open>t - 1\<close> is not.
\<close>

theorem threshold_inclusion:
  assumes "parse_lines cfg now lines = Inr recs"
    and "c \<in> set (table_cells now lines)"
  shows "(period_of_cell c \<in> set recs \<longleftrightarrow> KP_THRESHOLD cfg \<le> cell_level c) \<and>
         (cell_level c = KP_THRESHOLD cfg \<longrightarrow> period_of_cell c \<in> set recs) \<and>
         (cell_level c = KP_THRESHOLD cfg - 1 \<longrightarrow> period_of_cell c \<notin> set recs)"
proof -
  have recs: "recs = map period_of_cell
      (filter (\<lambda>c. KP_THRESHOLD cfg \<le> cell_level c) (table_cells now lines))"
    using assms(1) by (rule parse_lines_cells)
  have iff: "period_of_cell c \<in> set recs \<longleftrightarrow> KP_THRESHOLD cfg \<le> cell_level c"
  proof
    assume "period_of_cell c \<in> set recs"
    then obtain c' where "KP_THRESHOLD cfg \<le> cell_level c'" "period_of_cell c' = period_of_cell c"
      using recs by auto
    then show "KP_THRESHOLD cfg \<le> cell_level c" by (simp add: period_of_cell_def)
  next
    assume "KP_THRESHOLD cfg \<le> cell_level c"
    with assms(2) recs show "period_of_cell c \<in> set recs" by auto
  qed
  then show ?thesis by auto
qed

text \<open>In \<open>bulletin_mar\<close> with threshold 5, the cell of 14 March with level 5 is returned
  and the cell of 13 March with level 4 is not.\<close>

theorem threshold_inclusion_witness:
  "parse_lines cfg5 now_mar_2024 bulletin_mar =
     Inr [(utc 2024 3 14 0, utc 2024 3 14 3, 5), (utc 2024 3 14 0, utc 2024 3 14 3, 7),
          (utc 2024 3 12 21, utc 2024 3 13 0, 6)] \<and>
   (2, utc 2024 3 14 0, 5) \<in> set (table_cells now_mar_2024 bulletin_mar) \<and>
   (1, utc 2024 3 13 0, 4) \<in> set (table_cells now_mar_2024 bulletin_mar) \<and>
   period_of_cell (2, utc 2024 3 14 0, 5)
     \<in> set [(utc 2024 3 14 0, utc 2024 3 14 3, 5), (utc 2024 3 14 0, utc 2024 3 14 3, 7),
          (utc 2024 3 12 21, utc 2024 3 13 0, 6)] \<and>
   period_of_cell (1, utc 2024 3 13 0, 4)
     \<notin> set [(utc 2024 3 14 0, utc 2024 3 14 3, 5), (utc 2024 3 14 0, utc 2024 3 14 3, 7),
          (utc 2024 3 12 21, utc 2024 3 13 0, 6)]"
proof -
  have p: "parse_lines cfg5 now_mar_2024 bulletin_mar =
     Inr [(utc 2024 3 14 0, utc 2024 3 14 3, 5), (utc 2024 3 14 0, utc 2024 3 14 3, 7),
          (utc 2024 3 12 21, utc 2024 3 13 0, 6)]"
    by code_simp
  have c5: "(2, utc 2024 3 14 0, 5) \<in> set (table_cells now_mar_2024 bulletin_mar)"
    by code_simp
  have c4: "(1, utc 2024 3 13 0, 4) \<in> set (table_cells now_mar_2024 bulletin_mar)"
    by code_simp
  have t: "KP_THRESHOLD cfg5 = 5" by (simp add: cfg5_def)
  from threshold_inclusion[OF p c5] threshold_inclusion[OF p c4] p c5 c4 t
  show ?thesis by (simp add: cell_level_def)
qed

subsection \<open>C2: the row \<^verbatim>\<open>00-03UT 3 4 7\<close>\<close>

text \<open>
  C2. In a bulletin whose header resolves to the dates \<open>D0\<close>, \<open>D1\<close> and \<open>D2\<close>, a line
  after the header whose parts are \<^verbatim>\<open>00-03UT\<close>, \<^verbatim>\<open>3\<close>, \<^verbatim>\<open>4\<close> and \<^verbatim>\<open>7\<close> has the cells of
  levels 3, 4 and 7 in the columns 0, 1 and 2 and contributes, with threshold 5, exactly
  one period: the one of column 2, with level 7, from 00:00 UTC to 03:00 UTC on \<open>D2\<close>.
  The periods of the parse are those of the lines before it, this one, and those of the
  lines after it.
\<close>

theorem row_00_03_example:
  assumes hdr: "find_date_header lines = Some (h, raw)"
    and dates: "decode_dates (resolve_current_year now lines) (now_month now) raw [] =
      Inr [D0, D1, D2]"
    and k: "h < k" "k < length lines"
    and row: "split_ws (strip (lines ! k)) = [''00-03UT'', ''3'', ''4'', ''7'']"
    and thr: "KP_THRESHOLD cfg = 5"
    and ok: "parse_lines cfg now lines = Inr recs"
  shows "row_cells [D0, D1, D2] (lines ! k) =
      [(0, combine D0 0, 3), (1, combine D1 0, 4), (2, combine D2 0, 7)] \<and>
    row_periods 5 [D0, D1, D2] (lines ! k) = Inr [(combine D2 0, combine D2 3, 7)] \<and>
    (\<exists>before after.
       rows_loop 5 [D0, D1, D2] (take (k - Suc h) (drop (Suc h) lines)) = Inr before \<and>
       rows_loop 5 [D0, D1, D2] (drop (Suc k) lines) = Inr after \<and>
       recs = before @ [(combine D2 0, combine D2 3, 7)] @ after)"
proof -
  from decode_dates_valid[OF dates] have "valid_date D2" by simp
  then have y: "year D2 \<le> 9999" by (simp add: valid_date_def)
  have r: "row_periods 5 [D0, D1, D2] (lines ! k) = Inr [(combine D2 0, combine D2 3, 7)]"
    using row y by (rule row_00_03_periods)
  have c: "row_cells [D0, D1, D2] (lines ! k) =
      [(0, combine D0 0, 3), (1, combine D1 0, 4), (2, combine D2 0, 7)]"
    using row by (rule row_00_03_cells)
  have len: "k - Suc h < length (drop (Suc h) lines)" using k by simp
  have "drop (Suc h) lines =
      take (k - Suc h) (drop (Suc h) lines) @ (drop (Suc h) lines) ! (k - Suc h) #
      drop (Suc (k - Suc h)) (drop (Suc h) lines)"
    using len by (rule id_take_nth_drop)
  moreover have "(drop (Suc h) lines) ! (k - Suc h) = lines ! k" using k by simp
  moreover have "drop (Suc (k - Suc h)) (drop (Suc h) lines) = drop (Suc k) lines"
    using k by simp
  ultimately have split:
    "drop (Suc h) lines = take (k - Suc h) (drop (Suc h) lines) @ lines ! k # drop (Suc k) lines"
    by simp
  from ok hdr dates thr have "rows_loop 5 [D0, D1, D2] (drop (Suc h) lines) = Inr recs"
    by (simp add: parse_lines_def)
  then have "rows_loop 5 [D0, D1, D2]
      (take (k - Suc h) (drop (Suc h) lines) @ lines ! k # drop (Suc k) lines) = Inr recs"
    using split by simp
  from rows_loop_split[OF this] r c show ?thesis by auto
qed

text \<open>The line at index 7 of \<open>bulletin_mar\<close>.\<close>

theorem row_00_03_example_witness:
  "find_date_header bulletin_mar = Some (4, [''Mar'', ''12'', ''Mar'', ''13'', ''Mar'', ''14'']) \<and>
   split_ws (strip (bulletin_mar ! 7)) = [''00-03UT'', ''3'', ''4'', ''7''] \<and>
   parse_lines cfg5 now_mar_2024 bulletin_mar =
     Inr [(utc 2024 3 14 0, utc 2024 3 14 3, 5), (utc 2024 3 14 0, utc 2024 3 14 3, 7),
          (utc 2024 3 12 21, utc 2024 3 13 0, 6)] \<and>
   row_periods 5 [date_of (utc 2024 3 12 0), date_of (utc 2024 3 13 0), date_of (utc 2024 3 14 0)]
       (bulletin_mar ! 7) =
     Inr [(utc 2024 3 14 0, utc 2024 3 14 3, 7)]"
proof -
  have hdr: "find_date_header bulletin_mar =
      Some (4, [''Mar'', ''12'', ''Mar'', ''13'', ''Mar'', ''14''])"
    by code_simp
  have dates: "decode_dates (resolve_current_year now_mar_2024 bulletin_mar)
      (now_month now_mar_2024) [''Mar'', ''12'', ''Mar'', ''13'', ''Mar'', ''14''] [] =
      Inr [date_of (utc 2024 3 12 0), date_of (utc 2024 3 13 0), date_of (utc 2024 3 14 0)]"
    by code_simp
  have k: "(4::nat) < 7" "7 < length bulletin_mar" by (simp_all add: bulletin_mar_def)
  have row: "split_ws (strip (bulletin_mar ! 7)) = [''00-03UT'', ''3'', ''4'', ''7'']"
    by code_simp
  have thr: "KP_THRESHOLD cfg5 = 5" by (simp add: cfg5_def)
  have ok: "parse_lines cfg5 now_mar_2024 bulletin_mar =
     Inr [(utc 2024 3 14 0, utc 2024 3 14 3, 5), (utc 2024 3 14 0, utc 2024 3 14 3, 7),
          (utc 2024 3 12 21, utc 2024 3 13 0, 6)]"
    by code_simp
  from row_00_03_example[OF hdr dates k row thr ok] hdr row ok show ?thesis
    by (simp add: combine_def utc_def)
qed

subsection \<open>C3: the interval of a period\<close>

text \<open>
  C3. Every period that the parser returns is the period of a cell of the table. Its
  start is on the forecast date of the column of the cell, at an hour from 0 to 23. Its
  end is exactly three hours after its start: on the same date when the start hour is at
  most 20, and on the next day otherwise, so that a start at 23:00 UTC on a day gives an
  end at 02:00 UTC on the next day.
\<close>

theorem interval_three_hours:
  assumes "parse_lines cfg now lines = Inr recs" and "r \<in> set recs"
  shows "\<exists>ds c. header_dates now lines = Some (Inr ds) \<and> length ds = 3 \<and>
     c \<in> set (table_cells now lines) \<and> r = period_of_cell c \<and> cell_column c < 3 \<and>
     date_of (period_start r) = ds ! cell_column c \<and>
     0 \<le> hour (period_start r) \<and> hour (period_start r) \<le> 23 \<and>
     hours_since_epoch (period_end r) = hours_since_epoch (period_start r) + 3 \<and>
     (if hour (period_start r) + 3 < 24
      then date_of (period_end r) = date_of (period_start r) \<and>
           hour (period_end r) = hour (period_start r) + 3
      else toordinal (date_of (period_end r)) = toordinal (date_of (period_start r)) + 1 \<and>
           hour (period_end r) = hour (period_start r) + 3 - 24)"
proof -
  from parse_lines_cells[OF assms(1)] assms(2) obtain c where
    c: "c \<in> set (table_cells now lines)" and r: "r = period_of_cell c"
    by auto
  from table_cells_mem[OF c] obtain ds h where
    ds: "header_dates now lines = Some (Inr ds)" "length ds = 3" "cell_column c < 3"
      "valid_date (ds ! cell_column c)" and
    h: "0 \<le> h" "h \<le> 23" "cell_start c = combine (ds ! cell_column c) h"
    by blast
  have start: "period_start r = cell_start c" and "period_end r = plus_3h (cell_start c)"
    using r by (simp_all add: period_of_cell_def period_start_def period_end_def)
  moreover have v: "valid_date (date_of (cell_start c))" "0 \<le> hour (cell_start c)"
    "hour (cell_start c) \<le> 23"
    using ds(4) h by (simp_all add: combine_def)
  moreover from v have "hours_since_epoch (plus_3h (cell_start c)) =
      hours_since_epoch (cell_start c) + 3"
    by (rule hours_plus_3h)
  moreover have "if hour (cell_start c) + 3 < 24
      then date_of (plus_3h (cell_start c)) = date_of (cell_start c) \<and>
           hour (plus_3h (cell_start c)) = hour (cell_start c) + 3
      else toordinal (date_of (plus_3h (cell_start c))) = toordinal (date_of (cell_start c)) + 1 \<and>
           hour (plus_3h (cell_start c)) = hour (cell_start c) + 3 - 24"
    using v(1) toordinal_next_day[of "date_of (cell_start c)"] by (simp add: plus_3h_def)
  moreover have "date_of (cell_start c) = ds ! cell_column c"
    using h(3) by (simp add: combine_def)
  ultimately show ?thesis using ds c r by (intro exI[of _ ds] exI[of _ c]) auto
qed

text \<open>The period of \<open>bulletin_dec\<close>, read in December, that starts at 23:00 UTC on
  31 December 2024 ends at 02:00 UTC on 1 January 2025.\<close>

theorem interval_three_hours_witness:
  "parse_lines cfg5 now_dec_2024 bulletin_dec =
     Inr [(utc 2024 12 31 23, utc 2025 1 1 2, 7), (utc 2025 1 1 23, utc 2025 1 2 2, 7),
          (utc 2025 1 2 23, utc 2025 1 3 2, 7)] \<and>
   hours_since_epoch (period_end (utc 2024 12 31 23, utc 2025 1 1 2, 7)) =
     hours_since_epoch (period_start (utc 2024 12 31 23, utc 2025 1 1 2, 7)) + 3 \<and>
   toordinal (date_of (utc 2025 1 1 2)) = toordinal (date_of (utc 2024 12 31 23)) + 1"
proof -
  have p: "parse_lines cfg5 now_dec_2024 bulletin_dec =
     Inr [(utc 2024 12 31 23, utc 2025 1 1 2, 7), (utc 2025 1 1 23, utc 2025 1 2 2, 7),
          (utc 2025 1 2 23, utc 2025 1 3 2, 7)]"
    by code_simp
  have m: "(utc 2024 12 31 23, utc 2025 1 1 2, 7) \<in>
      set [(utc 2024 12 31 23, utc 2025 1 1 2, 7), (utc 2025 1 1 23, utc 2025 1 2 2, 7),
          (utc 2025 1 2 23, utc 2025 1 3 2, 7)]"
    by simp
  have h: "hour (period_start (utc 2024 12 31 23, utc 2025 1 1 2, 7)) = 23"
    by (simp add: period_start_def utc_def)
  from interval_three_hours[OF p m] h p show ?thesis
    by (auto simp: period_start_def period_end_def)
qed

subsection \<open>C4: three forecast dates\<close>

text \<open>
  C4, as the specification states it, asks for three dates in non-decreasing order. The
  parser checks no order: \<open>bulletin_dec\<close>, issued on 31 December 2024 and read in
  January 2025, parses to three periods although its dates resolve to 2024-12-31,
  2024-01-01 and 2024-01-02.
\<close>

theorem three_dates_order_counterexample:
  "parse_lines cfg5 now_jan_2025 bulletin_dec =
     Inr [(utc 2024 12 31 23, utc 2025 1 1 2, 7), (utc 2024 1 1 23, utc 2024 1 2 2, 7),
          (utc 2024 1 2 23, utc 2024 1 3 2, 7)] \<and>
   header_dates now_jan_2025 bulletin_dec =
     Some (Inr [date_of (utc 2024 12 31 0), date_of (utc 2024 1 1 0), date_of (utc 2024 1 2 0)]) \<and>
   \<not> sorted (map toordinal
        [date_of (utc 2024 12 31 0), date_of (utc 2024 1 1 0), date_of (utc 2024 1 2 0)])"
  by code_simp

text \<open>
  C4, amended. When the parse returns a period, the header has resolved to exactly three
  dates, each of them a date of the calendar; their order is not checked. When there is
  no header, when decoding it raises \<^verbatim>\<open>ValueError\<close> (a part that is no month, a day that
  is missing, not a number or not in the month) or when it gives fewer than three dates,
  the parse returns no period.
\<close>

theorem three_dates_or_nothing:
  "(parse_lines cfg now lines = Inr recs \<and> recs \<noteq> [] \<longrightarrow>
      (\<exists>ds. header_dates now lines = Some (Inr ds) \<and> length ds = 3 \<and> list_all valid_date ds)) \<and>
   (header_dates now lines = None \<or> header_dates now lines = Some (Inl ValueError) \<or>
    (\<exists>ds. header_dates now lines = Some (Inr ds) \<and> length ds \<noteq> 3) \<longrightarrow>
      parse_lines cfg now lines = Inr [])"
proof (intro conjI impI)
  assume a: "parse_lines cfg now lines = Inr recs \<and> recs \<noteq> []"
  then obtain ds where ds: "header_dates now lines = Some (Inr ds)" "length ds = 3"
    using parse_lines_nonempty by blast
  then obtain idx raw where
    "decode_dates (resolve_current_year now lines) (now_month now) raw [] = Inr ds"
    by (auto simp: header_dates_def split: option.splits)
  then have "\<forall>d \<in> set ds. valid_date d" by (blast dest: decode_dates_valid)
  with ds show "\<exists>ds. header_dates now lines = Some (Inr ds) \<and> length ds = 3 \<and>
      list_all valid_date ds"
    by (auto simp: list_all_iff)
next
  assume "header_dates now lines = None \<or> header_dates now lines = Some (Inl ValueError) \<or>
    (\<exists>ds. header_dates now lines = Some (Inr ds) \<and> length ds \<noteq> 3)"
  then show "parse_lines cfg now lines = Inr []"
    by (auto simp: parse_lines_def header_dates_def Let_def split: option.splits)
qed

text \<open>\<open>bulletin_dec\<close> read in December has three dates; \<open>bulletin_two_dates\<close> has two and
  gives no period.\<close>

theorem three_dates_or_nothing_witness:
  "parse_lines cfg5 now_dec_2024 bulletin_dec =
     Inr [(utc 2024 12 31 23, utc 2025 1 1 2, 7), (utc 2025 1 1 23, utc 2025 1 2 2, 7),
          (utc 2025 1 2 23, utc 2025 1 3 2, 7)] \<and>
   (\<exists>ds. header_dates now_dec_2024 bulletin_dec = Some (Inr ds) \<and> length ds = 3 \<and>
      list_all valid_date ds) \<and>
   header_dates now_mar_2024 bulletin_two_dates =
     Some (Inr [date_of (utc 2024 3 12 0), date_of (utc 2024 3 13 0)]) \<and>
   parse_lines cfg5 now_mar_2024 bulletin_two_dates = Inr []"
proof -
  have p: "parse_lines cfg5 now_dec_2024 bulletin_dec =
     Inr [(utc 2024 12 31 23, utc 2025 1 1 2, 7), (utc 2025 1 1 23, utc 2025 1 2 2, 7),
          (utc 2025 1 2 23, utc 2025 1 3 2, 7)]"
    by code_simp
  have h: "header_dates now_mar_2024 bulletin_two_dates =
     Some (Inr [date_of (utc 2024 3 12 0), date_of (utc 2024 3 13 0)])"
    by code_simp
  from three_dates_or_nothing[of cfg5 now_dec_2024 bulletin_dec
      "[(utc 2024 12 31 23, utc 2025 1 1 2, 7), (utc 2025 1 1 23, utc 2025 1 2 2, 7),
          (utc 2025 1 2 23, utc 2025 1 3 2, 7)]"] p
  have "\<exists>ds. header_dates now_dec_2024 bulletin_dec = Some (Inr ds) \<and> length ds = 3 \<and>
      list_all valid_date ds"
    by simp
  moreover from three_dates_or_nothing[of cfg5 now_mar_2024 bulletin_two_dates] h
  have "parse_lines cfg5 now_mar_2024 bulletin_two_dates = Inr []"
    by simp
  ultimately show ?thesis using p h by simp
qed

subsection \<open>C5: the year of a forecast date\<close>

text \<open>
  C5. Each date that the header resolves to has the month of its month part, and its
  year is the base year plus one when the current UTC month is December and that month
  is January, and the base year otherwise; the base year is the year of issue, or the
  current UTC year when no line gives one. The rule is applied to each date on its own.
\<close>

theorem year_rollover:
  assumes "find_date_header lines = Some (h, raw)"
    and "header_dates now lines = Some (Inr ds)"
    and "i < length ds"
  shows "month_str_to_int (raw ! (2 * i)) = Inr (month (ds ! i)) \<and>
     year (ds ! i) =
       (if now_month now = 12 \<and> month (ds ! i) = 1 then resolve_current_year now lines + 1
        else resolve_current_year now lines) \<and>
     resolve_current_year now lines =
       (case issued_scan lines of Some y \<Rightarrow> y | None \<Rightarrow> now_year now)"
proof -
  from assms(1,2) have
    "decode_dates (resolve_current_year now lines) (now_month now) raw [] = Inr ds"
    by (simp add: header_dates_def)
  from decode_dates_three[OF this] assms(3) show ?thesis
    by (auto simp: year_for_forecast_def resolve_current_year_def)
qed

text \<open>\<open>bulletin_dec\<close> read in December: the date of \<^verbatim>\<open>Jan 01\<close> is in 2025, the date of
  \<^verbatim>\<open>Dec 31\<close> in 2024, the year of issue.\<close>

theorem year_rollover_witness:
  "find_date_header bulletin_dec = Some (3, [''Dec'', ''31'', ''Jan'', ''01'', ''Jan'', ''02'']) \<and>
   header_dates now_dec_2024 bulletin_dec =
     Some (Inr [date_of (utc 2024 12 31 0), date_of (utc 2025 1 1 0), date_of (utc 2025 1 2 0)]) \<and>
   resolve_current_year now_dec_2024 bulletin_dec = 2024 \<and>
   year ([date_of (utc 2024 12 31 0), date_of (utc 2025 1 1 0), date_of (utc 2025 1 2 0)] ! 1) =
     resolve_current_year now_dec_2024 bulletin_dec + 1 \<and>
   year ([date_of (utc 2024 12 31 0), date_of (utc 2025 1 1 0), date_of (utc 2025 1 2 0)] ! 0) =
     resolve_current_year now_dec_2024 bulletin_dec"
proof -
  have hdr: "find_date_header bulletin_dec =
      Some (3, [''Dec'', ''31'', ''Jan'', ''01'', ''Jan'', ''02''])"
    by code_simp
  have ds: "header_dates now_dec_2024 bulletin_dec =
     Some (Inr [date_of (utc 2024 12 31 0), date_of (utc 2025 1 1 0), date_of (utc 2025 1 2 0)])"
    by code_simp
  have cy: "resolve_current_year now_dec_2024 bulletin_dec = 2024" by code_simp
  have nm: "now_month now_dec_2024 = 12" by (simp add: now_dec_2024_def)
  have i1: "1 < length [date_of (utc 2024 12 31 0), date_of (utc 2025 1 1 0),
      date_of (utc 2025 1 2 0)]" by simp
  have i0: "0 < length [date_of (utc 2024 12 31 0), date_of (utc 2025 1 1 0),
      date_of (utc 2025 1 2 0)]" by simp
  from year_rollover[OF hdr ds i1] year_rollover[OF hdr ds i0] hdr ds cy nm show ?thesis
    by (simp add: utc_def)
qed

subsection \<open>C6: header discovery\<close>

text \<open>
  C6, as the specification states it, selects among the three lines after the marker the
  first one that is not blank and is a valid header. The parser looks only at the first
  line that is not blank: in \<open>bulletin_prose\<close> a line of prose stands between the marker
  and the header, the specification's search finds the header at index 3, the parser
  finds none and returns no period.
\<close>

theorem header_discovery_counterexample:
  "spec_find_header bulletin_prose = Some 3 \<and>
   find_date_header bulletin_prose = None \<and>
   parse_lines cfg5 now_mar_2024 bulletin_prose = Inr []"
  by code_simp

text \<open>
  C6, amended. The header that the parser selects is line \<open>j\<close> with its parts, where \<open>j\<close>
  is the first line that is not blank after a marker line \<open>i\<close>, at most three lines
  after it, with at least three parts of which the first is a month abbreviation; \<open>i\<close>
  is the first marker line that leads to such a line. A marker line whose first
  following line that is not blank is not such a line leads to none. When no marker
  line leads to a header the parser finds none, and then it returns no period and
  raises nothing.
\<close>

theorem header_discovery:
  "(find_date_header lines = Some (j, parts) \<longrightarrow>
      parts = split_ws (strip (lines ! j)) \<and>
      (\<exists>i. header_after lines i j \<and> (\<forall>i' j'. i' < i \<longrightarrow> \<not> header_after lines i' j'))) \<and>
   (find_date_header lines = None \<longleftrightarrow> (\<forall>i j. \<not> header_after lines i j)) \<and>
   (find_date_header lines = None \<longrightarrow> parse_lines cfg now lines = Inr [])"
  using find_date_header_Some[of lines j parts] find_date_header_None[of lines]
    parse_lines_no_header[of lines cfg now]
  by blast

text \<open>\<open>bulletin_mar\<close> has its header at index 4, after the marker at index 2 and a blank
  line; \<open>bulletin_prose\<close> has none.\<close>

theorem header_discovery_witness:
  "find_date_header bulletin_mar = Some (4, [''Mar'', ''12'', ''Mar'', ''13'', ''Mar'', ''14'']) \<and>
   (\<exists>i. header_after bulletin_mar i 4) \<and>
   find_date_header bulletin_prose = None \<and>
   (\<forall>i j. \<not> header_after bulletin_prose i j) \<and>
   parse_lines cfg5 now_mar_2024 bulletin_prose = Inr []"
proof -
  have a: "find_date_header bulletin_mar =
      Some (4, [''Mar'', ''12'', ''Mar'', ''13'', ''Mar'', ''14''])"
    by code_simp
  have b: "find_date_header bulletin_prose = None" by code_simp
  from header_discovery[of bulletin_mar 4 "[''Mar'', ''12'', ''Mar'', ''13'', ''Mar'', ''14'']"]
    a have "\<exists>i. header_after bulletin_mar i 4" by blast
  moreover from header_discovery[of bulletin_prose 0 "[]" cfg5 now_mar_2024] b
  have "(\<forall>i j. \<not> header_after bulletin_prose i j) \<and>
      parse_lines cfg5 now_mar_2024 bulletin_prose = Inr []"
    by blast
  ultimately show ?thesis using a b by blast
qed

subsection \<open>C7: malformed rows and values\<close>

text \<open>
  C7. A value that \<^verbatim>\<open>float\<close> reads as infinity, such as \<^verbatim>\<open>inf\<close> or \<^verbatim>\<open>2e308\<close>, makes
  \<^verbatim>\<open>int\<close> raise \<^verbatim>\<open>OverflowError\<close>, which \<^verbatim>\<open>except ValueError\<close> does not catch: the parse of
  \<open>bulletin_inf\<close> raises it, and the period of the row before is lost with it.
\<close>

theorem infinite_value_aborts:
  "kp_of_str ''inf'' = Inl OverflowError \<and>
   kp_of_str ''2e308'' = Inl OverflowError \<and>
   parse_lines cfg5 now_mar_2024 bulletin_inf = Inl OverflowError \<and>
   parse_lines cfg5 now_mar_2024 (butlast bulletin_inf) =
     Inr [(utc 2024 3 12 0, utc 2024 3 12 3, 6)]"
  by code_simp

subsection \<open>C8: the level of a value\<close>

text \<open>
  C8. When a value is read as a finite float that is not negative, its level is that
  float truncated toward zero; \<^verbatim>\<open>4.7\<close> gives 4 and \<^verbatim>\<open>5\<close> gives 5.
\<close>

theorem level_truncation:
  "(py_float kp_str = Inr x \<and> float_value x = Some q \<and> 0 \<le> q \<longrightarrow>
      kp_of_str kp_str = Inr \<lfloor>q\<rfloor>) \<and>
   kp_of_str ''4.7'' = Inr 4 \<and> kp_of_str ''5'' = Inr 5"
proof (intro conjI impI)
  assume a: "py_float kp_str = Inr x \<and> float_value x = Some q \<and> 0 \<le> q"
  then obtain neg m p where x: "x = Finite neg m p" by (cases x) auto
  with a have m: "0 \<le> m" by (auto dest: py_float_Finite)
  show "kp_of_str kp_str = Inr \<lfloor>q\<rfloor>"
  proof (cases "0 \<le> p")
    case True
    with a x have q: "q = (if neg then - 1 else 1) * (of_int m * 2 ^ nat p)" by simp
    show ?thesis
    proof (cases neg)
      case False
      with q True a x show ?thesis by (simp add: kp_of_str_def floor_int_scaled)
    next
      case neg: True
      with q a have "(of_int m :: rat) * 2 ^ nat p \<le> 0" by simp
      moreover have "(0::rat) < 2 ^ nat p" by simp
      ultimately have "(of_int m :: rat) \<le> 0" by (simp add: mult_le_0_iff)
      with m have "m = 0" by simp
      with q True a x show ?thesis by (simp add: kp_of_str_def)
    qed
  next
    case False
    with a x have q: "q = (if neg then - 1 else 1) * (of_int m / 2 ^ nat (- p))" by simp
    show ?thesis
    proof (cases neg)
      case neg: False
      with q False a x show ?thesis by (simp add: kp_of_str_def floor_scaled)
    next
      case neg: True
      with q a have "(of_int m :: rat) / 2 ^ nat (- p) \<le> 0" by simp
      moreover have "(0::rat) < 2 ^ nat (- p)" by simp
      ultimately have "(of_int m :: rat) \<le> 0" by (simp add: divide_le_0_iff)
      with m have "m = 0" by simp
      with q False a x show ?thesis by (simp add: kp_of_str_def)
    qed
  qed
next
  show "kp_of_str ''4.7'' = Inr 4" by code_simp
next
  show "kp_of_str ''5'' = Inr 5" by code_simp
qed

text \<open>\<^verbatim>\<open>4.7\<close> is read as the float \<open>5291729562160333 / 2 ^ 50\<close>.\<close>

theorem level_truncation_witness:
  "py_float ''4.7'' = Inr (Finite False 5291729562160333 (- 50)) \<and>
   float_value (Finite False 5291729562160333 (- 50)) = Some (5291729562160333 / 2 ^ 50) \<and>
   (0::rat) \<le> 5291729562160333 / 2 ^ 50 \<and>
   kp_of_str ''4.7'' = Inr \<lfloor>5291729562160333 / 2 ^ 50 :: rat\<rfloor> \<and>
   \<lfloor>5291729562160333 / 2 ^ 50 :: rat\<rfloor> = 4"
proof -
  have f: "py_float ''4.7'' = Inr (Finite False 5291729562160333 (- 50))" by code_simp
  have v: "float_value (Finite False 5291729562160333 (- 50)) = Some (5291729562160333 / 2 ^ 50)"
    by simp
  have q: "(0::rat) \<le> 5291729562160333 / 2 ^ 50" by simp
  have "\<lfloor>(of_int 5291729562160333 :: rat) / 2 ^ 50\<rfloor> = 5291729562160333 div 2 ^ 50"
    by (rule floor_scaled)
  then have fl: "\<lfloor>5291729562160333 / 2 ^ 50 :: rat\<rfloor> = 4" by simp
  from level_truncation[of "''4.7''" "Finite False 5291729562160333 (- 50)"
      "5291729562160333 / 2 ^ 50"] f v q fl
  show ?thesis by blast
qed

subsection \<open>C9: no alert without periods\<close>

text \<open>
  C9. With no period, \<^verbatim>\<open>send_email_alert\<close> returns before it builds a subject or a body
  and before it opens a session to send anything; a message is handed over only for a
  list of periods that is not empty.
\<close>

theorem no_alert_when_empty:
  "send_email_alert cfg period_str [] local_tz_name_for_display = None \<and>
   (send_email_alert cfg period_str high_kp_periods local_tz_name_for_display = None
      \<longleftrightarrow> high_kp_periods = [])"
  by (simp add: send_email_alert_def Let_def sort_remdups_nonempty
      del: sort_key_simps remdups.simps)

theorem no_alert_when_empty_witness:
  "send_email_alert cfg5 (\<lambda>p. []) [] ''UTC'' = None \<and>
   send_email_alert cfg5 (\<lambda>p. []) [(utc 2024 3 14 0, utc 2024 3 14 3, 7)] ''UTC'' \<noteq> None"
  using no_alert_when_empty[of cfg5 "\<lambda>p. []" "''UTC''" "[(utc 2024 3 14 0, utc 2024 3 14 3, 7)]"]
  by simp

subsection \<open>C10: a start hour that is no hour of the day\<close>

text \<open>
  C10. A row whose label starts with a number above 23 gives no period when its values
  are finite (lemma \<open>kp_loop_bad_hour_total\<close>), as in \<open>bulletin_hour25\<close>. With a value
  that is infinite as a float the \<^verbatim>\<open>OverflowError\<close> of C7 is raised before the hour is
  looked at: the parse of \<open>bulletin_hour25_inf\<close> raises it.
\<close>

theorem hour_out_of_range_overflow:
  "row_periods 5 [date_of (utc 2024 3 12 0), date_of (utc 2024 3 13 0), date_of (utc 2024 3 14 0)]
     ''25-28UT inf 7 7'' = Inl OverflowError \<and>
   parse_lines cfg5 now_mar_2024 bulletin_hour25_inf = Inl OverflowError \<and>
   parse_lines cfg5 now_mar_2024 bulletin_hour25 = Inr [(utc 2024 3 14 0, utc 2024 3 14 3, 7)]"
  by code_simp

end
